theory Spec2Isabelle
  imports Complex_Main
begin

section \<open>Numbers and utilities (Portfolio2.jsx, section 3)\<close>

text \<open>
  JavaScript numbers are modelled as the type \<^typ>\<open>real\<close>: decimal literals are the
  rationals they denote, and rounding of IEEE doubles is not part of the model.
  \<^verbatim>\<open>Math.exp\<close> is \<^const>\<open>exp\<close>.
\<close>

text \<open>\<^verbatim>\<open>const clamp = (val, min, max) => Math.max(min, Math.min(max, val))\<close>\<close>

definition clamp :: "real \<Rightarrow> real \<Rightarrow> real \<Rightarrow> real" where
  "clamp val mn mx = max mn (min mx val)"

text \<open>\<^verbatim>\<open>const smoothstep = (x) => x * x * (3 - 2 * x)\<close>\<close>

definition smoothstep :: "real \<Rightarrow> real" where
  "smoothstep x = x * x * (3 - 2 * x)"

text \<open>
  Modelled from the spec: \<^verbatim>\<open>THREE.MathUtils.lerp\<close> belongs to the three.js library and
  is not under src/. It is the linear interpolation of the spec, in the form the
  library has: \<^verbatim>\<open>return (1 - t) * x + t * y\<close>.
\<close>

definition lerp :: "real \<Rightarrow> real \<Rightarrow> real \<Rightarrow> real" where
  "lerp x y t = (1 - t) * x + t * y"

text \<open>
  Modelled from the spec: \<^verbatim>\<open>THREE.MathUtils.damp\<close> belongs to the three.js library and
  is not under src/. It is the exponential decay toward the target that the spec
  gives as \<^verbatim>\<open>next = target + (current - target) * exp(-rate * deltaTime)\<close>, in the
  form the library has, \<^verbatim>\<open>return lerp(x, y, 1 - Math.exp(-lambda * dt))\<close>; line 173
  of Portfolio2.jsx writes the same factor inline. The library function tests none of
  its arguments, and neither does \<^verbatim>\<open>dampValue\<close>, which passes them on: what the
  function returns for a delta or a rate that is not positive is therefore what the
  formula gives.
\<close>

definition MathUtils_damp :: "real \<Rightarrow> real \<Rightarrow> real \<Rightarrow> real \<Rightarrow> real" where
  "MathUtils_damp x y lambda dt = lerp x y (1 - exp (- lambda * dt))"

text \<open>
  \<^verbatim>\<open>const dampValue = (current, target, smoothing, delta) =>
       THREE.MathUtils.damp(current, target, smoothing, delta)\<close>
\<close>

definition dampValue :: "real \<Rightarrow> real \<Rightarrow> real \<Rightarrow> real \<Rightarrow> real" where
  "dampValue current target smoothing delta = MathUtils_damp current target smoothing delta"

text \<open>
  Calling \<^const>\<open>dampValue\<close> \<open>n\<close> times with the same target, rate and step, each call
  on the result of the one before, as \<^verbatim>\<open>ScrollSmoother\<close> does frame after frame.
\<close>

fun damp_steps :: "nat \<Rightarrow> real \<Rightarrow> real \<Rightarrow> real \<Rightarrow> real \<Rightarrow> real" where
  "damp_steps 0 current target smoothing delta = current"
| "damp_steps (Suc n) current target smoothing delta =
     damp_steps n (dampValue current target smoothing delta) target smoothing delta"


section \<open>Configuration (Portfolio2.jsx, section 1)\<close>

type_synonym vec3 = "real \<times> real \<times> real"

text \<open>
  One entry of \<^verbatim>\<open>CAMERA_PATH\<close>: \<^verbatim>\<open>{ t, pos, look, fov, roll }\<close>. The field \<^verbatim>\<open>t\<close> is
  named \<open>kf_t\<close> here.
\<close>

record keyframe =
  kf_t :: real
  pos :: vec3
  look :: vec3
  fov :: real
  roll :: real

definition ETHOS_POS :: vec3 where
  "ETHOS_POS = (70, 0, -15)"

definition CAMERA_PATH :: "keyframe list" where
  "CAMERA_PATH =
   [\<lparr>kf_t = 0, pos = (0, 1, 16), look = (0, 0, 0), fov = 70, roll = 0\<rparr>,
    \<lparr>kf_t = 8 / 100, pos = (40, 3 / 10, 14), look = ETHOS_POS, fov = 64, roll = 0\<rparr>,
    \<lparr>kf_t = 24 / 100, pos = (65, 0, 12), look = ETHOS_POS, fov = 60, roll = 0\<rparr>,
    \<lparr>kf_t = 30 / 100, pos = (80, 5 / 10, 12), look = (80, 0, 0), fov = 68, roll = 0\<rparr>,
    \<lparr>kf_t = 38 / 100, pos = (100, 0, 9), look = (100, 0, 0), fov = 62, roll = -1\<rparr>,
    \<lparr>kf_t = 44 / 100, pos = (100, 0, 6), look = (100, 0, 0), fov = 52, roll = 0\<rparr>,
    \<lparr>kf_t = 52 / 100, pos = (110, 3 / 10, 10), look = (110, 0, 0), fov = 60, roll = 1\<rparr>,
    \<lparr>kf_t = 58 / 100, pos = (120, 0, 9), look = (120, 0, 0), fov = 58, roll = - (5 / 10)\<rparr>,
    \<lparr>kf_t = 62 / 100, pos = (120, 0, 6), look = (120, 0, 0), fov = 52, roll = 0\<rparr>,
    \<lparr>kf_t = 70 / 100, pos = (130, 3 / 10, 10), look = (130, 0, 0), fov = 60, roll = 5 / 10\<rparr>,
    \<lparr>kf_t = 76 / 100, pos = (140, 0, 9), look = (140, 0, 0), fov = 58, roll = - (5 / 10)\<rparr>,
    \<lparr>kf_t = 80 / 100, pos = (140, 0, 6), look = (140, 0, 0), fov = 52, roll = 0\<rparr>,
    \<lparr>kf_t = 86 / 100, pos = (140, 0, 0), look = (140, -1, -20), fov = 42, roll = 0\<rparr>,
    \<lparr>kf_t = 93 / 100, pos = (140, 0, -15), look = (140, -1, -35), fov = 42, roll = 0\<rparr>,
    \<lparr>kf_t = 1, pos = (140, 0, -25), look = (140, -1, -45), fov = 42, roll = 0\<rparr>]"

text \<open>Section snap stops: the camera always rests at one of these values.\<close>

definition SECTION_STOPS :: "real list" where
  "SECTION_STOPS = [0, 16 / 100, 22 / 100, 44 / 100, 62 / 100, 80 / 100, 96 / 100]"

definition WHEEL_THRESHOLD :: real where
  "WHEEL_THRESHOLD = 60"

definition SCROLL_SMOOTHING :: real where
  "SCROLL_SMOOTHING = 3"

section \<open>ScrollSmoother\<close>

text \<open>
  One frame of \<^verbatim>\<open>ScrollSmoother\<close>:
  \<^verbatim>\<open>const target = SECTION_STOPS[currentSectionRef.current]
  scrollRef.current = dampValue(scrollRef.current, target, SCROLL_SMOOTHING, delta)\<close>
  An index outside the array reads \<^verbatim>\<open>undefined\<close> and the damped value is no longer a
  number: that is \<open>None\<close>.
\<close>

definition ScrollSmoother_frame :: "int \<Rightarrow> real \<Rightarrow> real \<Rightarrow> real option" where
  "ScrollSmoother_frame currentSection scroll delta =
     (if 0 \<le> currentSection \<and> currentSection < int (length SECTION_STOPS)
      then Some (dampValue scroll (SECTION_STOPS ! nat currentSection) SCROLL_SMOOTHING delta)
      else None)"

section \<open>CameraController: velocity estimate and keyframe track\<close>

text \<open>
  \<^verbatim>\<open>const rawVelocity = Math.abs(t - prevScroll.current) / Math.max(delta, 0.001)\<close>.
  The divisor is a definition of its own, so that it can be shown not to be zero
  (in HOL a division by zero is 0 and would hide the failure).
\<close>

definition velocity_divisor :: "real \<Rightarrow> real" where
  "velocity_divisor delta = max delta (1 / 1000)"

definition rawVelocity :: "real \<Rightarrow> real \<Rightarrow> real \<Rightarrow> real" where
  "rawVelocity prevScroll t delta = \<bar>t - prevScroll\<bar> / velocity_divisor delta"

text \<open>
  \<^verbatim>\<open>velocityRef.current =
     dampValue(velocityRef.current, clamp(rawVelocity * 40, 0, 1), 14, delta)\<close>
\<close>

definition velocity_update :: "real \<Rightarrow> real \<Rightarrow> real \<Rightarrow> real \<Rightarrow> real" where
  "velocity_update velocity prevScroll t delta =
     dampValue velocity (clamp (rawVelocity prevScroll t delta * 40) 0 1) 14 delta"

text \<open>
  The velocity estimate over a run of frames, each frame given as the pair of the
  scroll value it reads and its delta; \<^verbatim>\<open>prevScroll.current = t\<close> after each frame.
\<close>

fun velocity_run :: "real \<Rightarrow> real \<Rightarrow> (real \<times> real) list \<Rightarrow> real" where
  "velocity_run velocity prevScroll [] = velocity"
| "velocity_run velocity prevScroll ((t, delta) # frames) =
     velocity_run (velocity_update velocity prevScroll t delta) t frames"

text \<open>
  The search for the start of the segment:
  \<^verbatim>\<open>let startIndex = 0
  for (let i = 0; i < CAMERA_PATH.length - 1; i++) {
      if (t >= CAMERA_PATH[i].t && t <= CAMERA_PATH[i + 1].t) { startIndex = i; break }
  }\<close>
  \<open>scan_path path t i\<close> is the loop from \<open>i\<close> on; it leaves 0 when no pair matches.
\<close>

function scan_path :: "keyframe list \<Rightarrow> real \<Rightarrow> nat \<Rightarrow> nat" where
  "scan_path path t i =
     (if i + 1 < length path
      then (if t \<ge> kf_t (path ! i) \<and> t \<le> kf_t (path ! (i + 1)) then i
            else scan_path path t (i + 1))
      else 0)"
  by pat_completeness auto
termination
  by (relation "measure (\<lambda>(path, t, i). length path - i)") auto

declare scan_path.simps [simp del]

text \<open>
  \<^verbatim>\<open>if (t >= CAMERA_PATH[CAMERA_PATH.length - 1].t) startIndex = CAMERA_PATH.length - 2\<close>
\<close>

definition start_index :: "keyframe list \<Rightarrow> real \<Rightarrow> nat" where
  "start_index path t =
     (if t \<ge> kf_t (path ! (length path - 1)) then length path - 2 else scan_path path t 0)"

text \<open>
  The test of the loop, for the pair of keyframes \<open>i\<close> and \<open>i + 1\<close>:
  \<^verbatim>\<open>t >= CAMERA_PATH[i].t && t <= CAMERA_PATH[i + 1].t\<close>.
\<close>

definition in_segment :: "keyframe list \<Rightarrow> real \<Rightarrow> nat \<Rightarrow> bool" where
  "in_segment path t i \<longleftrightarrow> t \<ge> kf_t (path ! i) \<and> t \<le> kf_t (path ! (i + 1))"

text \<open>\<^verbatim>\<open>const localT = end.t > start.t ? (t - start.t) / (end.t - start.t) : 1\<close>\<close>

definition localT :: "keyframe \<Rightarrow> keyframe \<Rightarrow> real \<Rightarrow> real" where
  "localT start end t =
     (if kf_t end > kf_t start then (t - kf_t start) / (kf_t end - kf_t start) else 1)"

text \<open>\<^verbatim>\<open>const easeT = smoothstep(clamp(localT, 0, 1))\<close>\<close>

definition easeT :: "keyframe \<Rightarrow> keyframe \<Rightarrow> real \<Rightarrow> real" where
  "easeT start end t = smoothstep (clamp (localT start end t) 0 1)"

text \<open>
  Modelled from the spec: \<^verbatim>\<open>Vector3.lerpVectors\<close> and \<^verbatim>\<open>Vector3.lerp\<close> belong to the
  three.js library and are not under src/. They are the componentwise linear
  interpolation of the spec, in the form the library has:
  \<^verbatim>\<open>lerpVectors(v1, v2, alpha)\<close> sets each component to \<^verbatim>\<open>v1.x + (v2.x - v1.x) * alpha\<close>,
  and \<^verbatim>\<open>lerp(v, alpha)\<close> adds \<^verbatim>\<open>(v.x - this.x) * alpha\<close> to each component of the
  receiver, which is the same expression.
\<close>

fun lerpVectors :: "vec3 \<Rightarrow> vec3 \<Rightarrow> real \<Rightarrow> vec3" where
  "lerpVectors (x1, y1, z1) (x2, y2, z2) alpha =
     (x1 + (x2 - x1) * alpha, y1 + (y2 - y1) * alpha, z1 + (z2 - z1) * alpha)"

text \<open>
  The values interpolated along the path in one frame: \<^verbatim>\<open>_targetPos\<close>,
  \<^verbatim>\<open>_targetLook\<close>, \<^verbatim>\<open>baseFov\<close> and \<^verbatim>\<open>pathRoll\<close> (the interpolated roll, turned from
  degrees into radians by the factor \<^verbatim>\<open>Math.PI / 180\<close>).
\<close>

record pose =
  targetPos :: vec3
  targetLook :: vec3
  baseFov :: real
  pathRoll :: real

text \<open>
  A path of fewer than two keyframes makes \<^verbatim>\<open>start\<close> or \<^verbatim>\<open>end\<close> undefined and the
  frame throws a TypeError: that is \<open>None\<close>.
\<close>

definition track_pose :: "keyframe list \<Rightarrow> real \<Rightarrow> pose option" where
  "track_pose path t =
     (if length path < 2 then None
      else
        let startIndex = start_index path t;
            start = path ! startIndex;
            end = path ! (startIndex + 1);
            e = easeT start end t
        in Some \<lparr>targetPos = lerpVectors (pos start) (pos end) e,
                 targetLook = lerpVectors (look start) (look end) e,
                 baseFov = lerp (fov start) (fov end) e,
                 pathRoll = lerp (roll start) (roll end) e * (pi / 180)\<rparr>)"

text \<open>
  The state \<^verbatim>\<open>CameraController\<close> keeps between frames. The orientation of the
  camera (\<^verbatim>\<open>camera.lookAt\<close>, \<^verbatim>\<open>camera.rotation.z\<close>) belongs to the rendering library
  and is left out.
\<close>

record camera_state =
  prevScroll :: real
  velocityRef :: real
  camera_position :: vec3
  lookAtTarget :: vec3
  camera_fov :: real

text \<open>
  \<^verbatim>\<open>const targetFov = baseFov + velocityRef.current * 12\<close>, from the velocity
  estimate of the same frame.
\<close>

definition targetFov :: "pose \<Rightarrow> real \<Rightarrow> real" where
  "targetFov p velocity = baseFov p + velocity * 12"

definition CameraController_frame :: "real \<Rightarrow> real \<Rightarrow> camera_state \<Rightarrow> camera_state option" where
  "CameraController_frame t delta c =
     (let velocity = velocity_update (velocityRef c) (prevScroll c) t delta
      in case track_pose CAMERA_PATH t of
           None \<Rightarrow> None
         | Some p \<Rightarrow>
             let lerpFactor = 1 - exp (- 6 * delta)
             in Some \<lparr>prevScroll = t,
                      velocityRef = velocity,
                      camera_position = lerpVectors (camera_position c) (targetPos p) lerpFactor,
                      lookAtTarget = lerpVectors (lookAtTarget c) (targetLook p) lerpFactor,
                      camera_fov = dampValue (camera_fov c) (targetFov p velocity) 6 delta\<rparr>)"

section \<open>The frame loop: scroll value, current section and camera\<close>

record sequencer =
  scrollRef :: real
  currentSectionRef :: int
  camera :: camera_state

text \<open>
  \<^verbatim>\<open>Scene\<close> mounts \<^verbatim>\<open>ScrollSmoother\<close> before \<^verbatim>\<open>CameraController\<close>, so in each frame
  the scroll value is damped first and the camera reads the new value.
\<close>

definition frame :: "real \<Rightarrow> sequencer \<Rightarrow> sequencer option" where
  "frame delta s =
     (case ScrollSmoother_frame (currentSectionRef s) (scrollRef s) delta of
        None \<Rightarrow> None
      | Some scroll \<Rightarrow>
          (case CameraController_frame scroll delta (camera s) of
             None \<Rightarrow> None
           | Some c \<Rightarrow> Some (s\<lparr>scrollRef := scroll, camera := c\<rparr>)))"

fun frames :: "real list \<Rightarrow> sequencer \<Rightarrow> sequencer option" where
  "frames [] s = Some s"
| "frames (delta # deltas) s =
     (case frame delta s of None \<Rightarrow> None | Some s' \<Rightarrow> frames deltas s')"

text \<open>
  The click handler of a checkpoint of \<^verbatim>\<open>ScrollBar\<close>, one per index \<open>i\<close> of
  \<^verbatim>\<open>SECTION_STOPS\<close>: \<^verbatim>\<open>onClick={() => { currentSectionRef.current = i }}\<close>.
\<close>

definition jumpToStop :: "nat \<Rightarrow> sequencer \<Rightarrow> sequencer" where
  "jumpToStop i s = s\<lparr>currentSectionRef := int i\<rparr>"

text \<open>
  The state at mount: \<^verbatim>\<open>useRef(0)\<close> for the scroll value, the current section, the
  previous scroll value and the velocity; \<^verbatim>\<open>new THREE.Vector3()\<close> for the look-at
  target; \<^verbatim>\<open>camera={{ position: [0, 1, 16], fov: 70 }}\<close> on the canvas.
\<close>

definition initial :: sequencer where
  "initial =
     \<lparr>scrollRef = 0, currentSectionRef = 0,
      camera = \<lparr>prevScroll = 0, velocityRef = 0, camera_position = (0, 1, 16),
                lookAtTarget = (0, 0, 0), camera_fov = 70\<rparr>\<rparr>"

section \<open>Wheel snapping (Portfolio, the wheel effect)\<close>

text \<open>
  The closure variables \<^verbatim>\<open>wheelAccum\<close> and \<^verbatim>\<open>locked\<close> of the effect, and the current
  section they drive.
\<close>

record wheel_state =
  wheelAccum :: real
  locked :: bool
  currentSection :: int

text \<open>
  \<^verbatim>\<open>const onWheel = (e) => {
      e.preventDefault()
      if (locked) return
      wheelAccum += e.deltaY
      if (wheelAccum >= WHEEL_THRESHOLD) {
          wheelAccum = 0; locked = true
          currentSectionRef.current = Math.min(currentSectionRef.current + 1, SECTION_STOPS.length - 1)
          setTimeout(() => { locked = false }, 800)
      } else if (wheelAccum <= -WHEEL_THRESHOLD) {
          wheelAccum = 0; locked = true
          currentSectionRef.current = Math.max(currentSectionRef.current - 1, 0)
          setTimeout(() => { locked = false }, 800)
      }
  }\<close>
\<close>

definition onWheel :: "wheel_state \<Rightarrow> real \<Rightarrow> wheel_state" where
  "onWheel w deltaY =
     (if locked w then w
      else
        let accum = wheelAccum w + deltaY
        in if accum \<ge> WHEEL_THRESHOLD
           then \<lparr>wheelAccum = 0, locked = True,
                 currentSection = min (currentSection w + 1) (int (length SECTION_STOPS) - 1)\<rparr>
           else if accum \<le> - WHEEL_THRESHOLD
           then \<lparr>wheelAccum = 0, locked = True,
                 currentSection = max (currentSection w - 1) 0\<rparr>
           else w\<lparr>wheelAccum := accum\<rparr>)"

text \<open>The callback of the timer, 800 ms after a step: \<^verbatim>\<open>locked = false\<close>.\<close>

definition unlock :: "wheel_state \<Rightarrow> wheel_state" where
  "unlock w = w\<lparr>locked := False\<rparr>"

text \<open>
  What can happen to the stepper: a wheel event, the expiry of the timer, or a click
  on checkpoint \<open>i\<close> of the scroll bar, which exists for the indices of
  \<^verbatim>\<open>SECTION_STOPS\<close> only.
\<close>

datatype wheel_event = Wheel real | Timeout | Click nat

fun wheel_step :: "wheel_state \<Rightarrow> wheel_event \<Rightarrow> wheel_state" where
  "wheel_step w (Wheel deltaY) = onWheel w deltaY"
| "wheel_step w Timeout = unlock w"
| "wheel_step w (Click i) =
     (if i < length SECTION_STOPS then w\<lparr>currentSection := int i\<rparr> else w)"

section \<open>EthosOverlay\<close>

definition ETHOS_ENTER :: real where
  "ETHOS_ENTER = 8 / 100"

definition ETHOS_EXIT :: real where
  "ETHOS_EXIT = 24 / 100"

definition THRESHOLDS :: "real list" where
  "THRESHOLDS = [12 / 100, 48 / 100, 80 / 100]"

text \<open>\<^verbatim>\<open>const raw = (t - ETHOS_ENTER) / (ETHOS_EXIT - ETHOS_ENTER)\<close>\<close>

definition ethos_raw :: "real \<Rightarrow> real" where
  "ethos_raw t = (t - ETHOS_ENTER) / (ETHOS_EXIT - ETHOS_ENTER)"

text \<open>\<^verbatim>\<open>const progress = Math.max(0, Math.min(1, raw))\<close>\<close>

definition ethos_progress :: "real \<Rightarrow> real" where
  "ethos_progress t = max 0 (min 1 (ethos_raw t))"

text \<open>
  \<^verbatim>\<open>const fadeIn  = Math.min(1, Math.max(0, (t - ETHOS_ENTER) / 0.025))
  const fadeOut = Math.min(1, Math.max(0, (ETHOS_EXIT  - t) / 0.025))
  const opacity = Math.min(fadeIn, fadeOut)\<close>
\<close>

definition fadeIn :: "real \<Rightarrow> real" where
  "fadeIn t = min 1 (max 0 ((t - ETHOS_ENTER) / (25 / 1000)))"

definition fadeOut :: "real \<Rightarrow> real" where
  "fadeOut t = min 1 (max 0 ((ETHOS_EXIT - t) / (25 / 1000)))"

definition opacity :: "real \<Rightarrow> real" where
  "opacity t = min (fadeIn t) (fadeOut t)"

text \<open>\<^verbatim>\<open>const newCount = THRESHOLDS.filter(th => progress >= th).length\<close>\<close>

definition newCount :: "real \<Rightarrow> nat" where
  "newCount t = length (filter (\<lambda>th. ethos_progress t \<ge> th) THRESHOLDS)"

text \<open>
  \<^verbatim>\<open>if (newCount !== prevCountRef.current) {
      prevCountRef.current = newCount
      setActiveCount(newCount)
  }\<close>
  One tick returns the new \<^verbatim>\<open>prevCountRef.current\<close> and the argument of the call of
  \<^verbatim>\<open>setActiveCount\<close>, when it is called.
\<close>

definition ethos_tick :: "nat \<Rightarrow> real \<Rightarrow> nat \<times> nat option" where
  "ethos_tick prevCount t =
     (if newCount t \<noteq> prevCount then (newCount t, Some (newCount t)) else (prevCount, None))"

section \<open>BioSection\<close>

definition BIO_ENTER :: real where
  "BIO_ENTER = 86 / 100"

datatype phase = Idle | Debris | Collapse | Appeared | Afterglow

record bio_state =
  phaseRef :: phase
  timerRef :: real

text \<open>
  One frame of \<^verbatim>\<open>BioSection\<close>. \<open>mounted\<close> says whether \<^verbatim>\<open>groupRef.current\<close> is set.
  The four tests after the timer is advanced run one after the other on the state the
  one before left.
  \<^verbatim>\<open>if (!groupRef.current) return
  const t = scrollRef.current ?? 0
  if (t < BIO_ENTER - 0.04) {
      if (phaseRef.current !== 'idle') { phaseRef.current = 'idle'; setPhase('idle'); timerRef.current = 0 }
      return
  }
  timerRef.current += delta
  if (phaseRef.current === 'idle'     && t >= BIO_ENTER)        { ...'debris';    timerRef.current = 0 }
  if (phaseRef.current === 'debris'   && timerRef.current > 1.4) { ...'collapse';  timerRef.current = 0 }
  if (phaseRef.current === 'collapse' && timerRef.current > 0.4) { ...'appeared';  timerRef.current = 0 }
  if (phaseRef.current === 'appeared' && timerRef.current > 0.6) { ...'afterglow' }\<close>
\<close>

definition bio_frame :: "bool \<Rightarrow> real \<Rightarrow> real \<Rightarrow> bio_state \<Rightarrow> bio_state" where
  "bio_frame mounted t delta b =
     (if \<not> mounted then b
      else if t < BIO_ENTER - 4 / 100
      then (if phaseRef b \<noteq> Idle then \<lparr>phaseRef = Idle, timerRef = 0\<rparr> else b)
      else
        let b0 = b\<lparr>timerRef := timerRef b + delta\<rparr>;
            b1 = (if phaseRef b0 = Idle \<and> t \<ge> BIO_ENTER
                  then \<lparr>phaseRef = Debris, timerRef = 0\<rparr> else b0);
            b2 = (if phaseRef b1 = Debris \<and> timerRef b1 > 14 / 10
                  then \<lparr>phaseRef = Collapse, timerRef = 0\<rparr> else b1);
            b3 = (if phaseRef b2 = Collapse \<and> timerRef b2 > 4 / 10
                  then \<lparr>phaseRef = Appeared, timerRef = 0\<rparr> else b2);
            b4 = (if phaseRef b3 = Appeared \<and> timerRef b3 > 6 / 10
                  then b3\<lparr>phaseRef := Afterglow\<rparr> else b3)
        in b4)"

text \<open>The order of the phases: the phase after each one, the last having none.\<close>

fun next_phase :: "phase \<Rightarrow> phase option" where
  "next_phase Idle = Some Debris"
| "next_phase Debris = Some Collapse"
| "next_phase Collapse = Some Appeared"
| "next_phase Appeared = Some Afterglow"
| "next_phase Afterglow = None"

section \<open>The damped scalar\<close>

lemma dampValue_formula:
  "dampValue current target smoothing delta =
     target + (current - target) * exp (- smoothing * delta)"
  by (simp add: dampValue_def MathUtils_damp_def lerp_def algebra_simps)

lemma damp_steps_formula:
  "damp_steps n current target smoothing delta =
     target + (current - target) * exp (- smoothing * (real n * delta))"
proof (induction n arbitrary: current)
  case 0
  show ?case by simp
next
  case (Suc n)
  have "exp (- smoothing * delta) * exp (- smoothing * (real n * delta)) =
        exp (- smoothing * (real (Suc n) * delta))"
    by (simp add: exp_add [symmetric] algebra_simps)
  then show ?case
    by (simp add: Suc.IH dampValue_formula mult.assoc del: of_nat_Suc)
qed

lemma damp_steps_split:
  assumes "0 < n"
  shows "damp_steps n current target smoothing (T / real n) =
         dampValue current target smoothing T"
  using assms by (simp add: damp_steps_formula dampValue_formula)

text \<open>
  Claim C1. For every current value, target value, positive rate and total time \<open>T\<close>,
  one call of the damped scalar with \<open>delta = T\<close> and \<open>n\<close> calls with \<open>delta = T / n\<close>,
  each on the result of the one before, differ by at most \<open>1e-4\<close>, for \<open>n\<close> from 1 to
  1000: on real numbers the two are equal, because every call follows
  \<open>next = target + (current - target) * exp (- rate * delta)\<close>.
\<close>

theorem damp_frame_rate_independent:
  assumes "0 < smoothing" and "1 \<le> n" and "n \<le> 1000"
  shows "\<bar>damp_steps n current target smoothing (T / real n)
           - dampValue current target smoothing T\<bar> \<le> 1 / 10000
       \<and> damp_steps n current target smoothing (T / real n) = dampValue current target smoothing T
       \<and> dampValue current target smoothing T
           = target + (current - target) * exp (- smoothing * T)"
proof -
  from assms have "0 < n" by simp
  then have "damp_steps n current target smoothing (T / real n)
             = dampValue current target smoothing T"
    by (rule damp_steps_split)
  then show ?thesis
    by (simp add: dampValue_formula)
qed

theorem damp_frame_rate_independent_witness:
  "(0::real) < 3 \<and> (1::nat) \<le> 4 \<and> (4::nat) \<le> 1000
   \<and> \<bar>damp_steps 4 0 1 3 (2 / real 4) - dampValue 0 1 3 2\<bar> \<le> 1 / 10000
   \<and> dampValue 0 1 3 2 = 1 + (0 - 1) * exp (- 3 * 2)"
  using damp_frame_rate_independent [of 3 4 0 1 2] by simp

text \<open>
  Every call of \<^verbatim>\<open>dampValue\<close> in the source passes a positive literal as its rate and
  the delta of the frame. With a delta of 0 the call returns \<open>current\<close>.
\<close>

lemma dampValue_zero_delta: "dampValue current target smoothing 0 = current"
  by (simp add: dampValue_formula)

section \<open>The velocity estimate\<close>

lemma dampValue_between:
  assumes "0 \<le> smoothing * delta"
    and "lo \<le> current" and "current \<le> hi" and "lo \<le> target" and "target \<le> hi"
  shows "lo \<le> dampValue current target smoothing delta
       \<and> dampValue current target smoothing delta \<le> hi"
proof -
  define e where "e = exp (- smoothing * delta)"
  have e: "0 \<le> e" "e \<le> 1"
    using assms(1) by (simp_all add: e_def)
  have d: "dampValue current target smoothing delta = (1 - e) * target + e * current"
    by (simp add: dampValue_formula e_def algebra_simps)
  have "0 \<le> (1 - e) * (target - lo)" "0 \<le> e * (current - lo)"
       "0 \<le> (1 - e) * (hi - target)" "0 \<le> e * (hi - current)"
    using e assms by simp_all
  then show ?thesis
    unfolding d by (simp add: algebra_simps)
qed

lemma velocity_divisor_pos: "0 < velocity_divisor delta"
  by (simp add: velocity_divisor_def max_def)

lemma clamp_unit: "0 \<le> clamp x 0 1 \<and> clamp x 0 1 \<le> 1"
  by (simp add: clamp_def)

lemma velocity_update_unit:
  assumes "0 \<le> delta" and "0 \<le> velocity" and "velocity \<le> 1"
  shows "0 \<le> velocity_update velocity prev t delta
       \<and> velocity_update velocity prev t delta \<le> 1"
  unfolding velocity_update_def
  using assms clamp_unit [of "rawVelocity prev t delta * 40"]
  by (intro dampValue_between) simp_all

lemma velocity_run_unit:
  assumes "list_all (\<lambda>(t, delta). 0 \<le> delta) fs" and "0 \<le> velocity" and "velocity \<le> 1"
  shows "0 \<le> velocity_run velocity prev fs \<and> velocity_run velocity prev fs \<le> 1"
  using assms
proof (induction fs arbitrary: velocity prev)
  case Nil
  then show ?case by simp
next
  case (Cons f fs)
  obtain t delta where f: "f = (t, delta)" by (cases f)
  from Cons.prems f have d: "0 \<le> delta" and rest: "list_all (\<lambda>(t, delta). 0 \<le> delta) fs"
    by simp_all
  from velocity_update_unit [OF d Cons.prems(2,3)]
  have "0 \<le> velocity_update velocity prev t delta"
       "velocity_update velocity prev t delta \<le> 1"
    by simp_all
  from Cons.IH [OF rest this] show ?case
    by (simp add: f)
qed

text \<open>
  Claim C8. In every frame the raw rate is \<open>\<bar>t - prevScroll\<bar>\<close> divided by
  \<open>max delta 0.001\<close>, which is never zero; the rate is scaled by 40 and clamped into
  \<open>[0, 1]\<close> before it is damped. So the smoothed velocity, which starts at 0, stays in
  \<open>[0, 1]\<close> after every frame, the deltas of the frames being elapsed times (not
  negative).
\<close>

theorem velocity_estimate_bounded:
  assumes "list_all (\<lambda>(t, delta). 0 \<le> delta) fs"
  shows "0 \<le> velocity_run 0 0 fs \<and> velocity_run 0 0 fs \<le> 1
       \<and> rawVelocity prev t delta = \<bar>t - prev\<bar> / max delta (1 / 1000)
       \<and> max delta (1 / 1000) \<noteq> 0
       \<and> velocity_update velocity prev t delta
           = dampValue velocity (clamp (rawVelocity prev t delta * 40) 0 1) 14 delta
       \<and> 0 \<le> clamp (rawVelocity prev t delta * 40) 0 1
       \<and> clamp (rawVelocity prev t delta * 40) 0 1 \<le> 1"
proof -
  have "0 \<le> velocity_run 0 0 fs \<and> velocity_run 0 0 fs \<le> 1"
    using assms by (intro velocity_run_unit) simp_all
  moreover have "max delta (1 / 1000) \<noteq> 0"
    using velocity_divisor_pos [of delta] by (simp add: velocity_divisor_def)
  ultimately show ?thesis
    using clamp_unit [of "rawVelocity prev t delta * 40"]
    by (simp add: rawVelocity_def velocity_divisor_def velocity_update_def)
qed

theorem velocity_estimate_bounded_witness:
  "list_all (\<lambda>(t, delta). 0 \<le> delta) [(1 / 10, 1 / 60), (1 / 10, 0 :: real)]
   \<and> 0 \<le> velocity_run 0 0 [(1 / 10, 1 / 60), (1 / 10, 0)]
   \<and> velocity_run 0 0 [(1 / 10, 1 / 60), (1 / 10, 0)] \<le> 1
   \<and> rawVelocity 0 (1 / 10) 0 = 100"
  using velocity_estimate_bounded [of "[(1 / 10, 1 / 60), (1 / 10, 0)]" 0 "1 / 10" 0 0]
  by simp

section \<open>The ethos overlay: opacity and checkpoints\<close>

lemma fade_clamp:
  "fadeIn t = clamp ((t - ETHOS_ENTER) / (25 / 1000)) 0 1"
  "fadeOut t = clamp ((ETHOS_EXIT - t) / (25 / 1000)) 0 1"
  by (simp_all add: fadeIn_def fadeOut_def clamp_def min_def max_def)

lemma opacity_cases:
  "opacity t =
     (if t \<le> 8 / 100 then 0
      else if t \<le> 105 / 1000 then (t - 8 / 100) * 40
      else if t \<le> 215 / 1000 then 1
      else if t \<le> 24 / 100 then (24 / 100 - t) * 40
      else 0)"
  by (simp add: opacity_def fadeIn_def fadeOut_def ETHOS_ENTER_def ETHOS_EXIT_def
      min_def max_def)

text \<open>
  Claim C5. For every scroll value the opacity of the ethos panel is the minimum of two
  linear ramps of width 0.025, each clamped to \<open>[0, 1]\<close>: one rising from 0 at
  \<open>ETHOS_ENTER\<close>, one falling to 0 at \<open>ETHOS_EXIT\<close>. It is 0 outside
  \<open>[ETHOS_ENTER, ETHOS_EXIT]\<close>, rises monotonically (linearly) across the enter band,
  is 1 between the bands, and falls monotonically (linearly) across the exit band.
\<close>

theorem opacity_gate:
  "opacity t = min (clamp ((t - ETHOS_ENTER) / (25 / 1000)) 0 1)
                   (clamp ((ETHOS_EXIT - t) / (25 / 1000)) 0 1)
   \<and> (t < ETHOS_ENTER \<or> ETHOS_EXIT < t \<longrightarrow> opacity t = 0)
   \<and> (ETHOS_ENTER \<le> t \<and> t \<le> ETHOS_ENTER + 25 / 1000
        \<longrightarrow> opacity t = (t - ETHOS_ENTER) / (25 / 1000))
   \<and> (ETHOS_ENTER \<le> t \<and> t \<le> t' \<and> t' \<le> ETHOS_ENTER + 25 / 1000
        \<longrightarrow> opacity t \<le> opacity t')
   \<and> (ETHOS_ENTER + 25 / 1000 \<le> t \<and> t \<le> ETHOS_EXIT - 25 / 1000 \<longrightarrow> opacity t = 1)
   \<and> (ETHOS_EXIT - 25 / 1000 \<le> t \<and> t \<le> ETHOS_EXIT
        \<longrightarrow> opacity t = (ETHOS_EXIT - t) / (25 / 1000))
   \<and> (ETHOS_EXIT - 25 / 1000 \<le> t \<and> t \<le> t' \<and> t' \<le> ETHOS_EXIT
        \<longrightarrow> opacity t' \<le> opacity t)"
proof -
  have "opacity t = min (clamp ((t - ETHOS_ENTER) / (25 / 1000)) 0 1)
                        (clamp ((ETHOS_EXIT - t) / (25 / 1000)) 0 1)"
    by (simp add: opacity_def fade_clamp)
  moreover have "t < ETHOS_ENTER \<or> ETHOS_EXIT < t \<longrightarrow> opacity t = 0"
    by (simp add: opacity_cases ETHOS_ENTER_def ETHOS_EXIT_def)
  moreover have "ETHOS_ENTER \<le> t \<and> t \<le> ETHOS_ENTER + 25 / 1000
        \<longrightarrow> opacity t = (t - ETHOS_ENTER) / (25 / 1000)"
    by (simp add: opacity_cases ETHOS_ENTER_def ETHOS_EXIT_def)
  moreover have "ETHOS_ENTER \<le> t \<and> t \<le> t' \<and> t' \<le> ETHOS_ENTER + 25 / 1000
        \<longrightarrow> opacity t \<le> opacity t'"
    by (simp add: opacity_cases ETHOS_ENTER_def ETHOS_EXIT_def)
  moreover have "ETHOS_ENTER + 25 / 1000 \<le> t \<and> t \<le> ETHOS_EXIT - 25 / 1000 \<longrightarrow> opacity t = 1"
    by (simp add: opacity_cases ETHOS_ENTER_def ETHOS_EXIT_def)
  moreover have "ETHOS_EXIT - 25 / 1000 \<le> t \<and> t \<le> ETHOS_EXIT
        \<longrightarrow> opacity t = (ETHOS_EXIT - t) / (25 / 1000)"
    by (simp add: opacity_cases ETHOS_ENTER_def ETHOS_EXIT_def)
  moreover have "ETHOS_EXIT - 25 / 1000 \<le> t \<and> t \<le> t' \<and> t' \<le> ETHOS_EXIT
        \<longrightarrow> opacity t' \<le> opacity t"
    by (simp add: opacity_cases ETHOS_ENTER_def ETHOS_EXIT_def)
  ultimately show ?thesis by blast
qed

theorem opacity_gate_witness:
  "opacity (5 / 100) = 0 \<and> opacity (30 / 100) = 0
   \<and> opacity (9 / 100) = 2 / 5 \<and> opacity (9 / 100) \<le> opacity (10 / 100)
   \<and> opacity (15 / 100) = 1
   \<and> opacity (22 / 100) = 4 / 5 \<and> opacity (23 / 100) \<le> opacity (22 / 100)"
proof -
  have "opacity (5 / 100) = 0"
    using opacity_gate [of "5 / 100" "5 / 100", THEN conjunct2]
    by (simp add: ETHOS_ENTER_def ETHOS_EXIT_def)
  moreover have "opacity (30 / 100) = 0"
    using opacity_gate [of "30 / 100" "30 / 100", THEN conjunct2]
    by (simp add: ETHOS_ENTER_def ETHOS_EXIT_def)
  moreover have "opacity (9 / 100) = 2 / 5 \<and> opacity (9 / 100) \<le> opacity (10 / 100)"
    using opacity_gate [of "9 / 100" "10 / 100", THEN conjunct2]
    by (simp add: ETHOS_ENTER_def ETHOS_EXIT_def)
  moreover have "opacity (15 / 100) = 1"
    using opacity_gate [of "15 / 100" "15 / 100", THEN conjunct2]
    by (simp add: ETHOS_ENTER_def ETHOS_EXIT_def)
  moreover have "opacity (22 / 100) = 4 / 5 \<and> opacity (23 / 100) \<le> opacity (22 / 100)"
    using opacity_gate [of "22 / 100" "23 / 100", THEN conjunct2]
    by (simp add: ETHOS_ENTER_def ETHOS_EXIT_def)
  ultimately show ?thesis by simp
qed

lemma newCount_cases:
  "newCount t =
     (if ethos_raw t < 12 / 100 then 0
      else if ethos_raw t < 48 / 100 then 1
      else if ethos_raw t < 80 / 100 then 2
      else 3)"
  by (simp add: newCount_def ethos_progress_def THRESHOLDS_def min_def max_def)

lemma ethos_raw_mono: "t \<le> t' \<Longrightarrow> ethos_raw t \<le> ethos_raw t'"
  by (simp add: ethos_raw_def ETHOS_ENTER_def ETHOS_EXIT_def divide_right_mono)

lemma newCount_mono: "t \<le> t' \<Longrightarrow> newCount t \<le> newCount t'"
  using ethos_raw_mono [of t t'] by (simp add: newCount_cases)

text \<open>
  Claim C6. The count of active checkpoints is the number of thresholds that the local
  progress \<open>(t - ETHOS_ENTER) / (ETHOS_EXIT - ETHOS_ENTER)\<close> has reached (\<open>\<ge>\<close>); it
  never decreases as the scroll value increases; for the thresholds 0.12, 0.48 and
  0.80 it is 0, 1, 2 and 3 on the four intervals they cut, so it steps at exactly these
  values; and a tick calls \<^verbatim>\<open>setActiveCount\<close> only when the count differs from the one
  of the tick before.
\<close>

theorem checkpoint_count:
  "newCount t = length (filter (\<lambda>th. (t - ETHOS_ENTER) / (ETHOS_EXIT - ETHOS_ENTER) \<ge> th) THRESHOLDS)
   \<and> (t \<le> t' \<longrightarrow> newCount t \<le> newCount t')
   \<and> newCount t =
       (if ethos_raw t < 12 / 100 then 0
        else if ethos_raw t < 48 / 100 then 1
        else if ethos_raw t < 80 / 100 then 2
        else 3)
   \<and> fst (ethos_tick prevCount t) = newCount t
   \<and> (snd (ethos_tick prevCount t) = None \<longleftrightarrow> newCount t = prevCount)
   \<and> (newCount t \<noteq> prevCount \<longrightarrow> snd (ethos_tick prevCount t) = Some (newCount t))
   \<and> (snd (ethos_tick (fst (ethos_tick prevCount t)) t') = None \<longleftrightarrow> newCount t' = newCount t)"
proof -
  have "newCount t = length (filter (\<lambda>th. (t - ETHOS_ENTER) / (ETHOS_EXIT - ETHOS_ENTER) \<ge> th) THRESHOLDS)"
    by (simp add: newCount_def ethos_progress_def ethos_raw_def THRESHOLDS_def
        ETHOS_ENTER_def ETHOS_EXIT_def min_def max_def)
  moreover have "fst (ethos_tick prevCount t) = newCount t" for prevCount t
    by (simp add: ethos_tick_def)
  moreover have "snd (ethos_tick prevCount t) = None \<longleftrightarrow> newCount t = prevCount" for prevCount t
    by (simp add: ethos_tick_def)
  moreover have "newCount t \<noteq> prevCount \<longrightarrow> snd (ethos_tick prevCount t) = Some (newCount t)"
    by (simp add: ethos_tick_def)
  ultimately show ?thesis
    using newCount_mono [of t t'] newCount_cases [of t] by simp
qed

theorem checkpoint_count_witness:
  "newCount (9 / 100) = 0 \<and> newCount (992 / 10000) = 1 \<and> newCount (1568 / 10000) = 2
   \<and> newCount (208 / 1000) = 3 \<and> newCount (9 / 100) \<le> newCount (208 / 1000)
   \<and> snd (ethos_tick 0 (992 / 10000)) = Some 1 \<and> snd (ethos_tick 1 (10 / 100)) = None"
proof -
  note c = checkpoint_count [THEN conjunct2]
  have "newCount (9 / 100) = 0 \<and> newCount (9 / 100) \<le> newCount (208 / 1000)"
    using c [of "9 / 100" "208 / 1000" 0]
    by (simp add: ethos_raw_def ETHOS_ENTER_def ETHOS_EXIT_def)
  moreover have "newCount (992 / 10000) = 1 \<and> snd (ethos_tick 0 (992 / 10000)) = Some 1"
    using c [of "992 / 10000" "992 / 10000" 0]
    by (simp add: ethos_raw_def ETHOS_ENTER_def ETHOS_EXIT_def)
  moreover have "newCount (1568 / 10000) = 2"
    using c [of "1568 / 10000" "1568 / 10000" 0]
    by (simp add: ethos_raw_def ETHOS_ENTER_def ETHOS_EXIT_def)
  moreover have "newCount (208 / 1000) = 3"
    using c [of "208 / 1000" "208 / 1000" 0]
    by (simp add: ethos_raw_def ETHOS_ENTER_def ETHOS_EXIT_def)
  moreover have "snd (ethos_tick 1 (10 / 100)) = None"
    using c [of "10 / 100" "10 / 100" 1]
    by (simp add: ethos_raw_def ETHOS_ENTER_def ETHOS_EXIT_def)
  ultimately show ?thesis by simp
qed

section \<open>The fixed configuration\<close>

text \<open>
  Claim C9. The stops are strictly increasing by index and lie in \<open>[0, 1]\<close>; the
  progress values of the keyframe path are strictly increasing, the first is 0 and
  the last is 1.
\<close>

theorem configuration_invariants:
  "sorted_wrt (<) SECTION_STOPS
   \<and> list_all (\<lambda>p. 0 \<le> p \<and> p \<le> 1) SECTION_STOPS
   \<and> sorted_wrt (<) (map kf_t CAMERA_PATH)
   \<and> kf_t (hd CAMERA_PATH) = 0
   \<and> kf_t (last CAMERA_PATH) = 1"
  by (simp add: SECTION_STOPS_def CAMERA_PATH_def)

section \<open>The phases of the bio section\<close>

lemma bio_frame_phase:
  "phaseRef (bio_frame mounted t delta b) =
     (if \<not> mounted then phaseRef b
      else if t < BIO_ENTER - 4 / 100 then Idle
      else (case phaseRef b of
              Idle \<Rightarrow> if BIO_ENTER \<le> t then Debris else Idle
            | Debris \<Rightarrow> if timerRef b + delta > 14 / 10 then Collapse else Debris
            | Collapse \<Rightarrow> if timerRef b + delta > 4 / 10 then Appeared else Collapse
            | Appeared \<Rightarrow> if timerRef b + delta > 6 / 10 then Afterglow else Appeared
            | Afterglow \<Rightarrow> Afterglow))"
  by (cases "phaseRef b") (simp_all add: bio_frame_def Let_def)

text \<open>
  Claim C10. The phase of the bio section only moves forward through
  idle, debris, collapse, appeared, afterglow, one phase per frame at most: from idle
  when the scroll value has reached \<open>BIO_ENTER\<close>, from the later phases when the timer
  has passed 1.4, 0.4 and 0.6 seconds. The only other transition is the reset to idle,
  which happens exactly in a frame whose scroll value is below \<open>BIO_ENTER - 0.04\<close>.
  A frame run before the group is mounted changes nothing.
\<close>

theorem bio_phase_machine:
  "phaseRef (bio_frame False t delta b) = phaseRef b
   \<and> (t < BIO_ENTER - 4 / 100 \<longrightarrow> phaseRef (bio_frame True t delta b) = Idle)
   \<and> (BIO_ENTER - 4 / 100 \<le> t \<longrightarrow>
        phaseRef (bio_frame True t delta b) =
          (case phaseRef b of
             Idle \<Rightarrow> if BIO_ENTER \<le> t then Debris else Idle
           | Debris \<Rightarrow> if timerRef b + delta > 14 / 10 then Collapse else Debris
           | Collapse \<Rightarrow> if timerRef b + delta > 4 / 10 then Appeared else Collapse
           | Appeared \<Rightarrow> if timerRef b + delta > 6 / 10 then Afterglow else Appeared
           | Afterglow \<Rightarrow> Afterglow))
   \<and> (phaseRef (bio_frame mounted t delta b) = phaseRef b
        \<or> next_phase (phaseRef b) = Some (phaseRef (bio_frame mounted t delta b))
        \<or> (phaseRef (bio_frame mounted t delta b) = Idle \<and> mounted \<and> t < BIO_ENTER - 4 / 100))
   \<and> (phaseRef b \<noteq> Idle \<and> phaseRef (bio_frame mounted t delta b) = Idle
        \<longleftrightarrow> phaseRef b \<noteq> Idle \<and> mounted \<and> t < BIO_ENTER - 4 / 100)"
proof -
  have "phaseRef (bio_frame mounted t delta b) = phaseRef b
        \<or> next_phase (phaseRef b) = Some (phaseRef (bio_frame mounted t delta b))
        \<or> (phaseRef (bio_frame mounted t delta b) = Idle \<and> mounted \<and> t < BIO_ENTER - 4 / 100)"
    by (cases "phaseRef b") (simp_all add: bio_frame_phase)
  moreover have "phaseRef b \<noteq> Idle \<and> phaseRef (bio_frame mounted t delta b) = Idle
        \<longleftrightarrow> phaseRef b \<noteq> Idle \<and> mounted \<and> t < BIO_ENTER - 4 / 100"
    by (cases "phaseRef b") (auto simp add: bio_frame_phase)
  ultimately show ?thesis
    by (simp add: bio_frame_phase)
qed

theorem bio_phase_machine_witness:
  "phaseRef (bio_frame True (90 / 100) (1 / 60) \<lparr>phaseRef = Idle, timerRef = 0\<rparr>) = Debris
   \<and> phaseRef (bio_frame True (83 / 100) (1 / 60) \<lparr>phaseRef = Idle, timerRef = 0\<rparr>) = Idle
   \<and> phaseRef (bio_frame True (90 / 100) (1 / 60) \<lparr>phaseRef = Debris, timerRef = 14 / 10\<rparr>) = Collapse
   \<and> phaseRef (bio_frame True (90 / 100) (1 / 60) \<lparr>phaseRef = Collapse, timerRef = 4 / 10\<rparr>) = Appeared
   \<and> phaseRef (bio_frame True (90 / 100) (1 / 60) \<lparr>phaseRef = Appeared, timerRef = 6 / 10\<rparr>) = Afterglow
   \<and> phaseRef (bio_frame True (90 / 100) 5 \<lparr>phaseRef = Afterglow, timerRef = 6 / 10\<rparr>) = Afterglow
   \<and> phaseRef (bio_frame True (81 / 100) (1 / 60) \<lparr>phaseRef = Afterglow, timerRef = 2\<rparr>) = Idle"
proof -
  note m = bio_phase_machine [THEN conjunct2]
  have "phaseRef (bio_frame True (90 / 100) (1 / 60) \<lparr>phaseRef = Idle, timerRef = 0\<rparr>) = Debris"
    using m [of "90 / 100" "1 / 60" "\<lparr>phaseRef = Idle, timerRef = 0\<rparr>" True]
    by (simp add: BIO_ENTER_def)
  moreover have "phaseRef (bio_frame True (83 / 100) (1 / 60) \<lparr>phaseRef = Idle, timerRef = 0\<rparr>) = Idle"
    using m [of "83 / 100" "1 / 60" "\<lparr>phaseRef = Idle, timerRef = 0\<rparr>" True]
    by (simp add: BIO_ENTER_def)
  moreover have "phaseRef (bio_frame True (90 / 100) (1 / 60) \<lparr>phaseRef = Debris, timerRef = 14 / 10\<rparr>) = Collapse"
    using m [of "90 / 100" "1 / 60" "\<lparr>phaseRef = Debris, timerRef = 14 / 10\<rparr>" True]
    by (simp add: BIO_ENTER_def)
  moreover have "phaseRef (bio_frame True (90 / 100) (1 / 60) \<lparr>phaseRef = Collapse, timerRef = 4 / 10\<rparr>) = Appeared"
    using m [of "90 / 100" "1 / 60" "\<lparr>phaseRef = Collapse, timerRef = 4 / 10\<rparr>" True]
    by (simp add: BIO_ENTER_def)
  moreover have "phaseRef (bio_frame True (90 / 100) (1 / 60) \<lparr>phaseRef = Appeared, timerRef = 6 / 10\<rparr>) = Afterglow"
    using m [of "90 / 100" "1 / 60" "\<lparr>phaseRef = Appeared, timerRef = 6 / 10\<rparr>" True]
    by (simp add: BIO_ENTER_def)
  moreover have "phaseRef (bio_frame True (90 / 100) 5 \<lparr>phaseRef = Afterglow, timerRef = 6 / 10\<rparr>) = Afterglow"
    using m [of "90 / 100" 5 "\<lparr>phaseRef = Afterglow, timerRef = 6 / 10\<rparr>" True]
    by (simp add: BIO_ENTER_def)
  moreover have "phaseRef (bio_frame True (81 / 100) (1 / 60) \<lparr>phaseRef = Afterglow, timerRef = 2\<rparr>) = Idle"
    using m [of "81 / 100" "1 / 60" "\<lparr>phaseRef = Afterglow, timerRef = 2\<rparr>" True]
    by (simp add: BIO_ENTER_def)
  ultimately show ?thesis by simp
qed

section \<open>The snap stepper\<close>

lemma stops_last_index: "int (length SECTION_STOPS) - 1 = 6"
  by (simp add: SECTION_STOPS_def)

lemma onWheel_locked: "locked w \<Longrightarrow> onWheel w deltaY = w"
  by (simp add: onWheel_def)

lemma onWheel_burst_locked: "locked w \<Longrightarrow> foldl onWheel w deltas = w"
  by (induction deltas) (simp_all add: onWheel_locked)

lemma onWheel_section:
  "currentSection (onWheel w deltaY) =
     (if locked w then currentSection w
      else if wheelAccum w + deltaY \<ge> WHEEL_THRESHOLD then min (currentSection w + 1) 6
      else if wheelAccum w + deltaY \<le> - WHEEL_THRESHOLD then max (currentSection w - 1) 0
      else currentSection w)"
  by (simp add: onWheel_def Let_def stops_last_index)

lemma onWheel_locks:
  "locked (onWheel w deltaY) \<longleftrightarrow>
     locked w \<or> wheelAccum w + deltaY \<ge> WHEEL_THRESHOLD \<or> wheelAccum w + deltaY \<le> - WHEEL_THRESHOLD"
  by (simp add: onWheel_def Let_def)

lemma wheel_step_range:
  assumes "0 \<le> currentSection w" and "currentSection w \<le> 6"
  shows "0 \<le> currentSection (wheel_step w e) \<and> currentSection (wheel_step w e) \<le> 6"
  using assms by (cases e) (simp_all add: onWheel_section unlock_def SECTION_STOPS_def)

lemma wheel_run_range:
  assumes "0 \<le> currentSection w" and "currentSection w \<le> 6"
  shows "0 \<le> currentSection (foldl wheel_step w es) \<and> currentSection (foldl wheel_step w es) \<le> 6"
  using assms
proof (induction es arbitrary: w)
  case Nil
  then show ?case by simp
next
  case (Cons e es)
  from wheel_step_range [OF Cons.prems, of e] Cons.IH [of "wheel_step w e"]
  show ?case by simp
qed

lemma onWheel_burst_one:
  assumes "0 \<le> currentSection w" and "currentSection w \<le> 6"
  shows "\<bar>currentSection (foldl onWheel w deltas) - currentSection w\<bar> \<le> 1"
  using assms
proof (induction deltas arbitrary: w)
  case Nil
  then show ?case by simp
next
  case (Cons d ds)
  show ?case
  proof (cases "locked (onWheel w d)")
    case True
    then have "foldl onWheel w (d # ds) = onWheel w d"
      by (simp add: onWheel_burst_locked)
    then show ?thesis
      using Cons.prems by (auto simp add: onWheel_section min_def max_def)
  next
    case False
    then have same: "currentSection (onWheel w d) = currentSection w"
      by (simp add: onWheel_locks onWheel_section)
    with Cons.IH [of "onWheel w d"] Cons.prems show ?thesis
      by simp
  qed
qed

text \<open>
  Claim C3. With the index in range: a wheel event that brings the accumulator to the
  threshold or beyond (\<open>\<ge> 60\<close>, or \<open>\<le> -60\<close>) while the stepper is not locked moves the
  index by one, clamped to \<open>[0, stopCount - 1]\<close>, resets the accumulator and locks the
  stepper; below the threshold the event only accumulates; while the stepper is locked
  any number of wheel events changes nothing, so a burst of events with no timer expiry
  in between moves the index by one at most; no sequence of wheel events, timer
  expiries and clicks takes the index out of \<open>[0, stopCount - 1]\<close>; and a step past
  the last stop or before the first leaves the index where it is.
\<close>

theorem snap_stepper:
  assumes "0 \<le> currentSection w" and "currentSection w \<le> int (length SECTION_STOPS) - 1"
  shows "(\<not> locked w \<and> wheelAccum w + deltaY \<ge> WHEEL_THRESHOLD \<longrightarrow>
            onWheel w deltaY = \<lparr>wheelAccum = 0, locked = True,
                                currentSection = min (currentSection w + 1) (int (length SECTION_STOPS) - 1)\<rparr>)
       \<and> (\<not> locked w \<and> wheelAccum w + deltaY \<le> - WHEEL_THRESHOLD \<longrightarrow>
            onWheel w deltaY = \<lparr>wheelAccum = 0, locked = True,
                                currentSection = max (currentSection w - 1) 0\<rparr>)
       \<and> (\<not> locked w \<and> - WHEEL_THRESHOLD < wheelAccum w + deltaY \<and> wheelAccum w + deltaY < WHEEL_THRESHOLD \<longrightarrow>
            onWheel w deltaY = w\<lparr>wheelAccum := wheelAccum w + deltaY\<rparr>)
       \<and> (locked w \<longrightarrow> foldl onWheel w deltas = w)
       \<and> \<bar>currentSection (foldl onWheel w deltas) - currentSection w\<bar> \<le> 1
       \<and> 0 \<le> currentSection (foldl wheel_step w events)
       \<and> currentSection (foldl wheel_step w events) \<le> int (length SECTION_STOPS) - 1
       \<and> (currentSection w = int (length SECTION_STOPS) - 1 \<and> wheelAccum w + deltaY \<ge> WHEEL_THRESHOLD \<longrightarrow>
            currentSection (onWheel w deltaY) = currentSection w)
       \<and> (currentSection w = 0 \<and> wheelAccum w + deltaY \<le> - WHEEL_THRESHOLD \<longrightarrow>
            currentSection (onWheel w deltaY) = currentSection w)"
proof -
  from assms have r: "0 \<le> currentSection w" "currentSection w \<le> 6"
    by (simp_all add: stops_last_index)
  have "\<not> locked w \<and> wheelAccum w + deltaY \<ge> WHEEL_THRESHOLD \<longrightarrow>
            onWheel w deltaY = \<lparr>wheelAccum = 0, locked = True,
                                currentSection = min (currentSection w + 1) (int (length SECTION_STOPS) - 1)\<rparr>"
    by (simp add: onWheel_def Let_def)
  moreover have "\<not> locked w \<and> wheelAccum w + deltaY \<le> - WHEEL_THRESHOLD \<longrightarrow>
            onWheel w deltaY = \<lparr>wheelAccum = 0, locked = True,
                                currentSection = max (currentSection w - 1) 0\<rparr>"
    by (simp add: onWheel_def Let_def WHEEL_THRESHOLD_def)
  moreover have "\<not> locked w \<and> - WHEEL_THRESHOLD < wheelAccum w + deltaY \<and> wheelAccum w + deltaY < WHEEL_THRESHOLD \<longrightarrow>
            onWheel w deltaY = w\<lparr>wheelAccum := wheelAccum w + deltaY\<rparr>"
    by (simp add: onWheel_def Let_def)
  moreover have "locked w \<longrightarrow> foldl onWheel w deltas = w"
    by (simp add: onWheel_burst_locked)
  moreover have "\<bar>currentSection (foldl onWheel w deltas) - currentSection w\<bar> \<le> 1"
    using r by (rule onWheel_burst_one)
  moreover have "0 \<le> currentSection (foldl wheel_step w events)
       \<and> currentSection (foldl wheel_step w events) \<le> int (length SECTION_STOPS) - 1"
    using wheel_run_range [OF r, of events] by (simp add: stops_last_index)
  moreover have "currentSection w = int (length SECTION_STOPS) - 1 \<and> wheelAccum w + deltaY \<ge> WHEEL_THRESHOLD \<longrightarrow>
            currentSection (onWheel w deltaY) = currentSection w"
    by (simp add: onWheel_section stops_last_index)
  moreover have "currentSection w = 0 \<and> wheelAccum w + deltaY \<le> - WHEEL_THRESHOLD \<longrightarrow>
            currentSection (onWheel w deltaY) = currentSection w"
    by (simp add: onWheel_section WHEEL_THRESHOLD_def)
  ultimately show ?thesis by blast
qed

theorem snap_stepper_witness:
  "onWheel \<lparr>wheelAccum = 20, locked = False, currentSection = 0\<rparr> 40
     = \<lparr>wheelAccum = 0, locked = True, currentSection = 1\<rparr>
   \<and> onWheel \<lparr>wheelAccum = - 20, locked = False, currentSection = 3\<rparr> (- 40)
     = \<lparr>wheelAccum = 0, locked = True, currentSection = 2\<rparr>
   \<and> foldl onWheel \<lparr>wheelAccum = 0, locked = True, currentSection = 1\<rparr> [100, 100, 100]
     = \<lparr>wheelAccum = 0, locked = True, currentSection = 1\<rparr>
   \<and> currentSection (onWheel \<lparr>wheelAccum = 0, locked = False, currentSection = 6\<rparr> 60) = 6
   \<and> currentSection (onWheel \<lparr>wheelAccum = 0, locked = False, currentSection = 0\<rparr> (- 60)) = 0
   \<and> \<bar>currentSection (foldl onWheel \<lparr>wheelAccum = 0, locked = False, currentSection = 0\<rparr>
                         [30, 30, 100, 100]) - 0\<bar> \<le> 1"
proof -
  have "onWheel \<lparr>wheelAccum = 20, locked = False, currentSection = 0\<rparr> 40
     = \<lparr>wheelAccum = 0, locked = True, currentSection = 1\<rparr>"
    using snap_stepper [where w = "\<lparr>wheelAccum = 20, locked = False, currentSection = 0\<rparr>"
        and deltaY = 40]
    by (simp add: SECTION_STOPS_def WHEEL_THRESHOLD_def)
  moreover have "onWheel \<lparr>wheelAccum = - 20, locked = False, currentSection = 3\<rparr> (- 40)
     = \<lparr>wheelAccum = 0, locked = True, currentSection = 2\<rparr>"
    using snap_stepper [where w = "\<lparr>wheelAccum = - 20, locked = False, currentSection = 3\<rparr>"
        and deltaY = "- 40"]
    by (simp add: SECTION_STOPS_def WHEEL_THRESHOLD_def)
  moreover have "foldl onWheel \<lparr>wheelAccum = 0, locked = True, currentSection = 1\<rparr> [100, 100, 100]
     = \<lparr>wheelAccum = 0, locked = True, currentSection = 1\<rparr>"
    using snap_stepper [where w = "\<lparr>wheelAccum = 0, locked = True, currentSection = 1\<rparr>"
        and deltas = "[100, 100, 100]"]
    by (simp add: SECTION_STOPS_def)
  moreover have "currentSection (onWheel \<lparr>wheelAccum = 0, locked = False, currentSection = 6\<rparr> 60) = 6"
    using snap_stepper [where w = "\<lparr>wheelAccum = 0, locked = False, currentSection = 6\<rparr>"
        and deltaY = 60]
    by (simp add: SECTION_STOPS_def WHEEL_THRESHOLD_def)
  moreover have "currentSection (onWheel \<lparr>wheelAccum = 0, locked = False, currentSection = 0\<rparr> (- 60)) = 0"
    using snap_stepper [where w = "\<lparr>wheelAccum = 0, locked = False, currentSection = 0\<rparr>"
        and deltaY = "- 60"]
    by (simp add: SECTION_STOPS_def WHEEL_THRESHOLD_def)
  moreover have "\<bar>currentSection (foldl onWheel \<lparr>wheelAccum = 0, locked = False, currentSection = 0\<rparr>
                         [30, 30, 100, 100]) - 0\<bar> \<le> 1"
    using snap_stepper [where w = "\<lparr>wheelAccum = 0, locked = False, currentSection = 0\<rparr>"
        and deltas = "[30, 30, 100, 100]"]
    by (simp add: SECTION_STOPS_def)
  ultimately show ?thesis by simp
qed

section \<open>The keyframe track\<close>

lemma scan_path_first:
  assumes "i0 \<le> m" and "m + 1 < length path" and "in_segment path t m"
    and "\<And>j. i0 \<le> j \<Longrightarrow> j < m \<Longrightarrow> \<not> in_segment path t j"
  shows "scan_path path t i0 = m"
  using assms
proof (induction "m - i0" arbitrary: i0)
  case 0
  then have "i0 = m" by simp
  with 0 show ?case
    by (subst scan_path.simps) (simp add: in_segment_def)
next
  case (Suc d)
  then have lt: "i0 < m" by simp
  with Suc.prems have no: "\<not> in_segment path t i0" by simp
  have "scan_path path t (i0 + 1) = m"
  proof (rule Suc.hyps(1))
    show "d = m - (i0 + 1)" using Suc.hyps(2) by simp
    show "i0 + 1 \<le> m" using lt by simp
    show "m + 1 < length path" by fact
    show "in_segment path t m" by fact
    show "\<not> in_segment path t j" if "i0 + 1 \<le> j" "j < m" for j
      using that Suc.prems(4) [of j] by simp
  qed
  with no lt Suc.prems(2) show ?case
    by (subst scan_path.simps) (simp add: in_segment_def)
qed

lemma scan_path_none:
  assumes "\<And>j. i0 \<le> j \<Longrightarrow> j + 1 < length path \<Longrightarrow> \<not> in_segment path t j"
  shows "scan_path path t i0 = 0"
  using assms
proof (induction path t i0 rule: scan_path.induct)
  case (1 path t i)
  show ?case
  proof (cases "i + 1 < length path")
    case True
    with "1.prems" [of i] have no: "\<not> in_segment path t i" by simp
    have "scan_path path t (i + 1) = 0"
      using True no "1.prems" by (intro "1.IH") (simp_all add: in_segment_def)
    with True no show ?thesis
      by (subst scan_path.simps) (auto simp add: in_segment_def)
  next
    case False
    then show ?thesis by (subst scan_path.simps) simp
  qed
qed

lemma path_strict:
  assumes "sorted_wrt (<) (map kf_t path)" and "i < j" and "j < length path"
  shows "kf_t (path ! i) < kf_t (path ! j)"
  using sorted_wrt_nth_less [OF assms(1), of i j] assms(2,3) by simp

lemma path_mono:
  assumes "sorted_wrt (<) (map kf_t path)" and "i \<le> j" and "j < length path"
  shows "kf_t (path ! i) \<le> kf_t (path ! j)"
  using path_strict [OF assms(1), of i j] assms(2,3) by (cases "i = j") simp_all

lemma first_segment:
  assumes len: "2 \<le> length path" and srt: "sorted_wrt (<) (map kf_t path)"
    and lo: "kf_t (path ! 0) \<le> t" and hi: "t \<le> kf_t (path ! (length path - 1))"
  obtains m where "m + 1 < length path" and "in_segment path t m"
    and "\<And>j. j < m \<Longrightarrow> \<not> in_segment path t j"
    and "start_index path t = m"
proof -
  define P where "P j \<longleftrightarrow> t \<le> kf_t (path ! (j + 1))" for j
  define m where "m = (LEAST j. P j)"
  have "length path - 2 + 1 = length path - 1"
    using len by simp
  then have top: "P (length path - 2)"
    using hi by (simp add: P_def)
  have Pm: "P m" unfolding m_def using top by (rule LeastI)
  have m_le: "m \<le> length path - 2" unfolding m_def using top by (rule Least_le)
  then have m_len: "m + 1 < length path" using len by simp
  have below: "\<not> P j" if "j < m" for j
    using that not_less_Least unfolding m_def by blast
  have ge: "kf_t (path ! m) \<le> t"
  proof (cases m)
    case 0
    with lo show ?thesis by simp
  next
    case (Suc k)
    then have "\<not> P k" using below by simp
    then show ?thesis by (simp add: P_def Suc)
  qed
  have seg: "in_segment path t m"
    using ge Pm by (simp add: in_segment_def P_def)
  have none: "\<not> in_segment path t j" if "j < m" for j
    using below [OF that] by (simp add: in_segment_def P_def)
  have scan: "scan_path path t 0 = m"
    using m_len seg none by (intro scan_path_first) simp_all
  have "start_index path t = m"
  proof (cases "t \<ge> kf_t (path ! (length path - 1))")
    case False
    then show ?thesis by (simp add: start_index_def scan)
  next
    case True
    have "m = length path - 2"
    proof (rule ccontr)
      assume "m \<noteq> length path - 2"
      with m_le have "m + 1 < length path - 1" by simp
      then have "kf_t (path ! (m + 1)) < kf_t (path ! (length path - 1))"
        using len by (intro path_strict [OF srt]) simp_all
      with Pm True show False by (simp add: P_def)
    qed
    with True show ?thesis by (simp add: start_index_def)
  qed
  with m_len seg none show ?thesis by (rule that)
qed

lemma segment_unique:
  assumes srt: "sorted_wrt (<) (map kf_t path)"
    and "in_segment path t i" and "in_segment path t j" and "i < j" and "j + 1 < length path"
  shows "j = i + 1 \<and> t = kf_t (path ! (i + 1))"
proof -
  have a: "kf_t (path ! j) \<le> kf_t (path ! (i + 1))"
    using assms(2,3) by (simp add: in_segment_def)
  have "j = i + 1"
  proof (rule ccontr)
    assume "j \<noteq> i + 1"
    with assms(4) have "i + 1 < j" by simp
    then have "kf_t (path ! (i + 1)) < kf_t (path ! j)"
      using assms(5) by (intro path_strict [OF srt]) simp_all
    with a show False by simp
  qed
  with assms(2,3) show ?thesis by (simp add: in_segment_def)
qed


lemma clamp_localT_beyond:
  assumes "kf_t s < kf_t e" and "kf_t e \<le> t"
  shows "clamp (localT s e t) 0 1 = 1"
proof -
  have "1 \<le> (t - kf_t s) / (kf_t e - kf_t s)"
    using assms by (simp add: le_divide_eq)
  with assms(1) show ?thesis
    by (simp add: clamp_def localT_def)
qed

lemma clamp_localT_before:
  assumes "kf_t s < kf_t e" and "t \<le> kf_t s"
  shows "clamp (localT s e t) 0 1 = 0"
proof -
  have "(t - kf_t s) / (kf_t e - kf_t s) \<le> 0"
    using assms by (simp add: divide_le_0_iff)
  with assms(1) show ?thesis
    by (simp add: clamp_def localT_def)
qed

lemma start_index_before:
  assumes len: "2 \<le> length path" and srt: "sorted_wrt (<) (map kf_t path)"
    and lt: "t < kf_t (path ! 0)"
  shows "start_index path t = 0"
proof -
  have low: "t < kf_t (path ! j)" if "j < length path" for j
    using path_mono [OF srt, of 0 j] that lt by simp
  have "\<not> in_segment path t j" if "j + 1 < length path" for j
    using low [of j] that by (simp add: in_segment_def)
  then have "scan_path path t 0 = 0"
    by (intro scan_path_none) simp
  moreover have "\<not> kf_t (path ! (length path - 1)) \<le> t"
  proof -
    have "length path - 1 < length path" using len by simp
    from low [OF this] show ?thesis by simp
  qed
  ultimately show ?thesis by (simp add: start_index_def)
qed

lemma start_index_at_keyframe:
  assumes len: "2 \<le> length path" and srt: "sorted_wrt (<) (map kf_t path)"
    and k: "k < length path"
  shows "start_index path (kf_t (path ! k)) = k - 1"
proof (cases "k = length path - 1")
  case True
  then show ?thesis using len by (simp add: start_index_def)
next
  case False
  with k have k1: "k + 1 < length path" by simp
  then have "kf_t (path ! k) < kf_t (path ! (length path - 1))"
    by (intro path_strict [OF srt]) simp_all
  then have "start_index path (kf_t (path ! k)) = scan_path path (kf_t (path ! k)) 0"
    by (simp add: start_index_def)
  also have "\<dots> = k - 1"
  proof (rule scan_path_first)
    show "0 \<le> k - 1" by simp
    show "k - 1 + 1 < length path" using k1 by simp
    show "in_segment path (kf_t (path ! k)) (k - 1)"
      using path_mono [OF srt, of "k - 1" k] path_mono [OF srt, of k "k - 1 + 1"] k k1
      by (simp add: in_segment_def)
    show "\<not> in_segment path (kf_t (path ! k)) j" if "j < k - 1" for j
    proof -
      from that have "j + 1 < k" by simp
      from path_strict [OF srt this k] show ?thesis by (simp add: in_segment_def)
    qed
  qed
  finally show ?thesis .
qed

lemma lerp_ends: "lerp x y 0 = x" "lerp x y 1 = y"
  by (simp_all add: lerp_def)

lemma easeT_ends:
  assumes "kf_t s < kf_t e"
  shows "easeT s e (kf_t s) = 0" and "easeT s e (kf_t e) = 1"
  using assms by (simp_all add: easeT_def localT_def clamp_def smoothstep_def)

lemma easeT_at_keyframe:
  assumes len: "2 \<le> length path" and srt: "sorted_wrt (<) (map kf_t path)"
    and k: "k < length path"
  shows "easeT (path ! (k - 1)) (path ! (k - 1 + 1)) (kf_t (path ! k)) = (if k = 0 then 0 else 1)"
proof (cases k)
  case 0
  have "kf_t (path ! 0) < kf_t (path ! 1)"
    using len by (intro path_strict [OF srt]) simp_all
  then show ?thesis
    using easeT_ends(1) [of "path ! 0" "path ! 1"] by (simp add: 0)
next
  case (Suc i)
  have "kf_t (path ! i) < kf_t (path ! Suc i)"
    using k Suc by (intro path_strict [OF srt]) simp_all
  then show ?thesis
    using easeT_ends(2) [of "path ! i" "path ! Suc i"] by (simp add: Suc)
qed

lemma track_scalars_at_keyframe:
  assumes len: "2 \<le> length path" and srt: "sorted_wrt (<) (map kf_t path)"
    and k: "k < length path"
  shows "map_option baseFov (track_pose path (kf_t (path ! k))) = Some (fov (path ! k))"
    and "map_option pathRoll (track_pose path (kf_t (path ! k))) = Some (roll (path ! k) * (pi / 180))"
proof -
  note i = start_index_at_keyframe [OF len srt k]
  note e = easeT_at_keyframe [OF len srt k]
  have same: "k \<noteq> 0 \<Longrightarrow> k - 1 + 1 = k" by simp
  show "map_option baseFov (track_pose path (kf_t (path ! k))) = Some (fov (path ! k))"
    using len e same by (simp add: track_pose_def Let_def i lerp_ends)
  show "map_option pathRoll (track_pose path (kf_t (path ! k))) = Some (roll (path ! k) * (pi / 180))"
    using len e same by (simp add: track_pose_def Let_def i lerp_ends)
qed

text \<open>
  Claim C2, as amended. For a path of at least two keyframes with strictly increasing
  progress: for a progress value between the first and the last keyframe the lookup
  finds the first adjacent pair whose closed interval contains it; another pair contains
  it only when the progress is exactly the keyframe the two pairs share, and then the
  earlier pair is the one used. At or beyond the last keyframe the lookup uses the final
  pair with local fraction 1, before the first keyframe the first pair with local
  fraction 0. The local fraction is linear, is 1 when the two keyframes have the same
  progress, and is clamped and passed through \<open>x\<^sup>2 (3 - 2 x)\<close> before the fields are
  interpolated. At the exact progress of a keyframe the pair used is the one that ends
  at it (the one that starts at it for the first keyframe) and the eased fraction is 1
  (0 for the first keyframe), so the interpolated field of view is that keyframe's own
  and the roll is the keyframe's roll in radians. The position and the look target are
  interpolated with the same fraction, as \<open>start + (end - start) * fraction\<close>; that
  they are the keyframe's own to the last digit is not stated.
\<close>

theorem keyframe_track:
  assumes "2 \<le> length path" and "sorted_wrt (<) (map kf_t path)"
  shows
    "(kf_t (path ! 0) \<le> t \<and> t \<le> kf_t (path ! (length path - 1)) \<longrightarrow>
        start_index path t + 1 < length path
        \<and> in_segment path t (start_index path t)
        \<and> (\<forall>j. j + 1 < length path \<and> in_segment path t j \<longrightarrow>
              j = start_index path t \<or> (j = start_index path t + 1 \<and> t = kf_t (path ! j))))
     \<and> (kf_t (path ! (length path - 1)) \<le> t \<longrightarrow>
          start_index path t = length path - 2
          \<and> clamp (localT (path ! (length path - 2)) (path ! (length path - 1)) t) 0 1 = 1)
     \<and> (t < kf_t (path ! 0) \<longrightarrow>
          start_index path t = 0 \<and> clamp (localT (path ! 0) (path ! 1) t) 0 1 = 0)
     \<and> (kf_t s < kf_t e \<longrightarrow> localT s e t = (t - kf_t s) / (kf_t e - kf_t s))
     \<and> (kf_t s = kf_t e \<longrightarrow> localT s e t = 1)
     \<and> easeT s e t = (clamp (localT s e t) 0 1)\<^sup>2 * (3 - 2 * clamp (localT s e t) 0 1)
     \<and> track_pose path t =
         Some \<lparr>targetPos = lerpVectors (pos (path ! start_index path t))
                  (pos (path ! (start_index path t + 1)))
                  (easeT (path ! start_index path t) (path ! (start_index path t + 1)) t),
               targetLook = lerpVectors (look (path ! start_index path t))
                  (look (path ! (start_index path t + 1)))
                  (easeT (path ! start_index path t) (path ! (start_index path t + 1)) t),
               baseFov = lerp (fov (path ! start_index path t))
                  (fov (path ! (start_index path t + 1)))
                  (easeT (path ! start_index path t) (path ! (start_index path t + 1)) t),
               pathRoll = lerp (roll (path ! start_index path t))
                  (roll (path ! (start_index path t + 1)))
                  (easeT (path ! start_index path t) (path ! (start_index path t + 1)) t)
                  * (pi / 180)\<rparr>
     \<and> (k < length path \<longrightarrow>
          start_index path (kf_t (path ! k)) = k - 1
          \<and> easeT (path ! (k - 1)) (path ! (k - 1 + 1)) (kf_t (path ! k)) = (if k = 0 then 0 else 1)
          \<and> map_option baseFov (track_pose path (kf_t (path ! k))) = Some (fov (path ! k))
          \<and> map_option pathRoll (track_pose path (kf_t (path ! k)))
              = Some (roll (path ! k) * (pi / 180)))"
proof -
  note len = assms(1) and srt = assms(2)
  have inside: "start_index path t + 1 < length path
        \<and> in_segment path t (start_index path t)
        \<and> (\<forall>j. j + 1 < length path \<and> in_segment path t j \<longrightarrow>
              j = start_index path t \<or> (j = start_index path t + 1 \<and> t = kf_t (path ! j)))"
    if lo: "kf_t (path ! 0) \<le> t" and hi: "t \<le> kf_t (path ! (length path - 1))"
  proof -
    from first_segment [OF len srt lo hi] obtain m where m: "m + 1 < length path"
      "in_segment path t m" "\<And>j. j < m \<Longrightarrow> \<not> in_segment path t j" "start_index path t = m"
      by blast
    have "j = m \<or> (j = m + 1 \<and> t = kf_t (path ! j))"
      if j: "j + 1 < length path" "in_segment path t j" for j
    proof (cases "j = m")
      case True
      then show ?thesis by simp
    next
      case False
      with m(3) [of j] j(2) have "m < j" by (cases "j < m") simp_all
      from segment_unique [OF srt m(2) j(2) this j(1)] show ?thesis by simp
    qed
    with m show ?thesis by simp
  qed
  have last_gt: "kf_t (path ! (length path - 2)) < kf_t (path ! (length path - 1))"
    using len by (intro path_strict [OF srt]) simp_all
  have beyond: "start_index path t = length path - 2
          \<and> clamp (localT (path ! (length path - 2)) (path ! (length path - 1)) t) 0 1 = 1"
    if "kf_t (path ! (length path - 1)) \<le> t"
    using that clamp_localT_beyond [OF last_gt that] by (simp add: start_index_def)
  have first_gt: "kf_t (path ! 0) < kf_t (path ! 1)"
    using len by (intro path_strict [OF srt]) simp_all
  have before: "start_index path t = 0 \<and> clamp (localT (path ! 0) (path ! 1) t) 0 1 = 0"
    if "t < kf_t (path ! 0)"
    using start_index_before [OF len srt that] clamp_localT_before [OF first_gt, of t] that
    by simp
  have ease: "easeT s e t = (clamp (localT s e t) 0 1)\<^sup>2 * (3 - 2 * clamp (localT s e t) 0 1)"
    by (simp add: easeT_def smoothstep_def power2_eq_square)
  have pose: "track_pose path t =
         Some \<lparr>targetPos = lerpVectors (pos (path ! start_index path t))
                  (pos (path ! (start_index path t + 1)))
                  (easeT (path ! start_index path t) (path ! (start_index path t + 1)) t),
               targetLook = lerpVectors (look (path ! start_index path t))
                  (look (path ! (start_index path t + 1)))
                  (easeT (path ! start_index path t) (path ! (start_index path t + 1)) t),
               baseFov = lerp (fov (path ! start_index path t))
                  (fov (path ! (start_index path t + 1)))
                  (easeT (path ! start_index path t) (path ! (start_index path t + 1)) t),
               pathRoll = lerp (roll (path ! start_index path t))
                  (roll (path ! (start_index path t + 1)))
                  (easeT (path ! start_index path t) (path ! (start_index path t + 1)) t)
                  * (pi / 180)\<rparr>"
    using len by (simp add: track_pose_def Let_def)
  have at_key: "start_index path (kf_t (path ! k)) = k - 1
          \<and> easeT (path ! (k - 1)) (path ! (k - 1 + 1)) (kf_t (path ! k)) = (if k = 0 then 0 else 1)
          \<and> map_option baseFov (track_pose path (kf_t (path ! k))) = Some (fov (path ! k))
          \<and> map_option pathRoll (track_pose path (kf_t (path ! k)))
              = Some (roll (path ! k) * (pi / 180))"
    if "k < length path"
    using start_index_at_keyframe [OF len srt that] easeT_at_keyframe [OF len srt that]
      track_scalars_at_keyframe [OF len srt that]
    by simp
  have lin: "kf_t s < kf_t e \<longrightarrow> localT s e t = (t - kf_t s) / (kf_t e - kf_t s)"
    and deg: "kf_t s = kf_t e \<longrightarrow> localT s e t = 1"
    by (simp_all add: localT_def)
  from inside beyond before lin deg ease pose at_key show ?thesis
    by blast
qed


lemma CAMERA_PATH_wf:
  "2 \<le> length CAMERA_PATH" "sorted_wrt (<) (map kf_t CAMERA_PATH)"
  by (simp_all add: CAMERA_PATH_def)

theorem keyframe_track_witness:
  "2 \<le> length CAMERA_PATH \<and> sorted_wrt (<) (map kf_t CAMERA_PATH)
   \<and> in_segment CAMERA_PATH (1 / 2) (start_index CAMERA_PATH (1 / 2))
   \<and> start_index CAMERA_PATH 2 = 13
   \<and> start_index CAMERA_PATH (- 1) = 0
   \<and> start_index CAMERA_PATH (44 / 100) = 4
   \<and> map_option baseFov (track_pose CAMERA_PATH (44 / 100)) = Some 52
   \<and> map_option pathRoll (track_pose CAMERA_PATH (44 / 100)) = Some 0"
proof -
  note kt = keyframe_track [OF CAMERA_PATH_wf]
  have "in_segment CAMERA_PATH (1 / 2) (start_index CAMERA_PATH (1 / 2))"
    using kt [where t = "1 / 2", THEN conjunct1] by (simp add: CAMERA_PATH_def)
  moreover have "start_index CAMERA_PATH 2 = 13"
    using kt [where t = 2, THEN conjunct2, THEN conjunct1] by (simp add: CAMERA_PATH_def)
  moreover have "start_index CAMERA_PATH (- 1) = 0"
    using kt [where t = "- 1", THEN conjunct2, THEN conjunct2, THEN conjunct1]
    by (simp add: CAMERA_PATH_def)
  moreover have "start_index CAMERA_PATH (44 / 100) = 4
   \<and> map_option baseFov (track_pose CAMERA_PATH (44 / 100)) = Some 52
   \<and> map_option pathRoll (track_pose CAMERA_PATH (44 / 100)) = Some 0"
    using kt [where k = 5, THEN conjunct2, THEN conjunct2, THEN conjunct2, THEN conjunct2,
        THEN conjunct2, THEN conjunct2, THEN conjunct2]
    by (simp add: CAMERA_PATH_def)
  ultimately show ?thesis
    using CAMERA_PATH_wf by simp
qed

text \<open>
  Claim C2 as stated fails where it says the pair is unique: the progress 0.08 is the
  second keyframe of \<^verbatim>\<open>CAMERA_PATH\<close>, the pairs 0 and 1 both contain it, and the lookup
  takes pair 0.
\<close>

theorem keyframe_pair_not_unique_counterexample:
  "in_segment CAMERA_PATH (8 / 100) 0 \<and> in_segment CAMERA_PATH (8 / 100) 1
   \<and> start_index CAMERA_PATH (8 / 100) = 0"
  by (simp add: in_segment_def start_index_def scan_path.simps CAMERA_PATH_def)

section \<open>Jumping to a stop\<close>

lemma length_CAMERA_PATH: "length CAMERA_PATH = 15"
  by (simp add: CAMERA_PATH_def)

lemma track_pose_CAMERA_PATH: "\<exists>p. track_pose CAMERA_PATH t = Some p"
  by (simp add: track_pose_def length_CAMERA_PATH Let_def)

lemma CameraController_frame_fov:
  assumes "track_pose CAMERA_PATH t = Some p"
  shows "\<exists>c'. CameraController_frame t delta c = Some c'
           \<and> velocityRef c' = velocity_update (velocityRef c) (prevScroll c) t delta
           \<and> prevScroll c' = t
           \<and> camera_fov c' = dampValue (camera_fov c) (targetFov p (velocityRef c')) 6 delta"
  using assms by (simp add: CameraController_frame_def Let_def)

lemma frame_result:
  assumes "i < length SECTION_STOPS" and "currentSectionRef s = int i"
    and "track_pose CAMERA_PATH (dampValue (scrollRef s) (SECTION_STOPS ! i) 3 delta) = Some p"
  shows "\<exists>s'. frame delta s = Some s'
           \<and> currentSectionRef s' = int i
           \<and> scrollRef s' = dampValue (scrollRef s) (SECTION_STOPS ! i) 3 delta
           \<and> camera_fov (camera s') =
               dampValue (camera_fov (camera s)) (targetFov p (velocityRef (camera s'))) 6 delta"
proof -
  let ?t = "dampValue (scrollRef s) (SECTION_STOPS ! i) 3 delta"
  from CameraController_frame_fov [OF assms(3), of delta "camera s"]
  obtain c' where c': "CameraController_frame ?t delta (camera s) = Some c'"
    "camera_fov c' = dampValue (camera_fov (camera s)) (targetFov p (velocityRef c')) 6 delta"
    by blast
  have "ScrollSmoother_frame (currentSectionRef s) (scrollRef s) delta = Some ?t"
    using assms(1,2) by (simp add: ScrollSmoother_frame_def SCROLL_SMOOTHING_def)
  with c' assms(2) show ?thesis
    by (simp add: frame_def)
qed

lemma frames_result:
  assumes "i < length SECTION_STOPS" and "currentSectionRef s = int i"
  shows "\<exists>s'. frames deltas s = Some s'
           \<and> currentSectionRef s' = int i
           \<and> scrollRef s' = SECTION_STOPS ! i
                + (scrollRef s - SECTION_STOPS ! i) * exp (- 3 * sum_list deltas)"
  using assms(2)
proof (induction deltas arbitrary: s)
  case Nil
  then show ?case by simp
next
  case (Cons d ds)
  obtain p where p: "track_pose CAMERA_PATH (dampValue (scrollRef s) (SECTION_STOPS ! i) 3 d) = Some p"
    using track_pose_CAMERA_PATH by blast
  from frame_result [OF assms(1) Cons.prems p]
  obtain s1 where s1: "frame d s = Some s1" "currentSectionRef s1 = int i"
    "scrollRef s1 = dampValue (scrollRef s) (SECTION_STOPS ! i) 3 d"
    by blast
  from Cons.IH [OF s1(2)]
  obtain s' where s': "frames ds s1 = Some s'" "currentSectionRef s' = int i"
    "scrollRef s' = SECTION_STOPS ! i + (scrollRef s1 - SECTION_STOPS ! i) * exp (- 3 * sum_list ds)"
    by blast
  have "exp (- (3 * d)) * exp (- (3 * sum_list ds)) = exp (- 3 * (d + sum_list ds))"
    by (simp add: exp_add [symmetric] algebra_simps)
  then have "scrollRef s' = SECTION_STOPS ! i
               + (scrollRef s - SECTION_STOPS ! i) * exp (- 3 * sum_list (d # ds))"
    by (simp add: s'(3) s1(3) dampValue_formula mult.assoc)
  with s1(1) s'(1,2) show ?case by simp
qed

lemma dampValue_toward:
  assumes "0 \<le> smoothing * delta"
  shows "min current target \<le> dampValue current target smoothing delta
       \<and> dampValue current target smoothing delta \<le> max current target
       \<and> \<bar>dampValue current target smoothing delta - target\<bar> \<le> \<bar>current - target\<bar>"
proof -
  have "min current target \<le> dampValue current target smoothing delta
       \<and> dampValue current target smoothing delta \<le> max current target"
    using assms by (intro dampValue_between) simp_all
  then show ?thesis by (auto simp add: min_def max_def split: if_splits)
qed

lemma dampValue_closer:
  assumes "0 < smoothing * delta" and "current \<noteq> target"
  shows "\<bar>dampValue current target smoothing delta - target\<bar> < \<bar>current - target\<bar>"
proof -
  have "exp (- smoothing * delta) < 1" using assms(1) by simp
  moreover have "0 < \<bar>current - target\<bar>" using assms(2) by simp
  ultimately have "\<bar>current - target\<bar> * exp (- smoothing * delta) < \<bar>current - target\<bar> * 1"
    by (intro mult_strict_left_mono) simp_all
  then show ?thesis
    by (simp add: dampValue_formula abs_mult)
qed


text \<open>
  The first frame after a jump from the state at mount to stop 1, with a delta of 1/60:
  bounds on the exponentials place the scroll value in \<open>[1/2400, 0.008]\<close>, which
  saturates the clamped velocity and keeps the interpolated field of view above 69.82.
\<close>

lemma exp_neg_bounds:
  fixes x :: real
  assumes "0 \<le> x"
  shows "1 - x \<le> exp (- x)" and "exp (- x) \<le> 1 / (1 + x)"
proof -
  show "1 - x \<le> exp (- x)"
    using exp_ge_add_one_self [of "- x"] by simp
  have "1 + x \<le> exp x" by (rule exp_ge_add_one_self)
  moreover have "0 < 1 + x" using assms by simp
  ultimately have "inverse (exp x) \<le> inverse (1 + x)"
    by (intro le_imp_inverse_le) simp_all
  then show "exp (- x) \<le> 1 / (1 + x)"
    by (simp add: exp_minus inverse_eq_divide)
qed

lemma first_scroll_bounds:
  "1 / 2400 \<le> dampValue 0 (16 / 100) 3 (1 / 60)"
  "dampValue 0 (16 / 100) 3 (1 / 60) \<le> 8 / 1000"
proof -
  have f: "dampValue 0 (16 / 100) 3 (1 / 60) = 16 / 100 * (1 - exp (- (1 / 20)))"
    by (simp add: dampValue_formula algebra_simps)
  have "1 - 1 / 20 \<le> exp (- (1 / 20 :: real))" "exp (- (1 / 20 :: real)) \<le> 1 / (1 + 1 / 20)"
    using exp_neg_bounds [of "1 / 20 :: real"] by simp_all
  then show "1 / 2400 \<le> dampValue 0 (16 / 100) 3 (1 / 60)"
    "dampValue 0 (16 / 100) 3 (1 / 60) \<le> 8 / 1000"
    unfolding f by simp_all
qed

lemma kick_velocity:
  assumes "1 / 2400 \<le> t"
  shows "7 / 37 \<le> velocity_update 0 0 t (1 / 60)"
proof -
  have "clamp (rawVelocity 0 t (1 / 60) * 40) 0 1 = 1"
    using assms by (simp add: clamp_def rawVelocity_def velocity_divisor_def)
  then have v: "velocity_update 0 0 t (1 / 60) = 1 - exp (- (14 / 60))"
    by (simp add: velocity_update_def dampValue_formula)
  have "exp (- (14 / 60 :: real)) \<le> 1 / (1 + 14 / 60)"
    using exp_neg_bounds(2) [of "14 / 60 :: real"] by simp
  then show ?thesis unfolding v by simp
qed

lemma early_pose:
  assumes "0 \<le> t" and "t \<le> 8 / 1000" and "track_pose CAMERA_PATH t = Some p"
  shows "70 - 18 / 100 \<le> baseFov p"
proof -
  have i: "start_index CAMERA_PATH t = 0"
    using assms(1,2) by (simp add: start_index_def scan_path.simps CAMERA_PATH_def)
  define x where "x = clamp (localT (CAMERA_PATH ! 0) (CAMERA_PATH ! 1) t) 0 1"
  have "localT (CAMERA_PATH ! 0) (CAMERA_PATH ! 1) t = t / (8 / 100)"
    by (simp add: localT_def CAMERA_PATH_def)
  then have x: "0 \<le> x" "x \<le> 1 / 10"
    using assms(1,2) by (simp_all add: x_def clamp_def)
  have xx: "x * x \<le> (1 / 10) * (1 / 10)"
    using x by (intro mult_mono) simp_all
  have "x * x * (3 - 2 * x) \<le> (1 / 10) * (1 / 10) * 3"
    using xx x by (intro mult_mono) simp_all
  then have e: "smoothstep x \<le> 3 / 100"
    by (simp add: smoothstep_def)
  have "baseFov p = lerp 70 64 (smoothstep x)"
    using assms(3) i
    by (simp add: track_pose_def length_CAMERA_PATH Let_def easeT_def x_def)
       (auto simp add: CAMERA_PATH_def)
  then show ?thesis
    using e by (simp add: lerp_def algebra_simps)
qed

lemma dampValue_rises:
  assumes "current < target" and "0 < smoothing * delta"
  shows "current < dampValue current target smoothing delta"
proof -
  have "exp (- smoothing * delta) < 1" using assms(2) by simp
  with assms(1) have "(current - target) * 1 < (current - target) * exp (- smoothing * delta)"
    by (intro mult_strict_left_mono_neg) simp_all
  then show ?thesis by (simp add: dampValue_formula)
qed

lemma jump_initial:
  "scrollRef (jumpToStop i initial) = 0" "currentSectionRef (jumpToStop i initial) = int i"
  "camera_fov (camera (jumpToStop i initial)) = 70"
  "velocityRef (camera (jumpToStop i initial)) = 0"
  "prevScroll (camera (jumpToStop i initial)) = 0"
  by (simp_all add: jumpToStop_def initial_def)

lemma rest_fov_stop_1:
  "map_option baseFov (track_pose CAMERA_PATH (16 / 100)) = Some 62"
proof -
  have i: "start_index CAMERA_PATH (16 / 100) = 1"
    by (simp add: start_index_def scan_path.simps CAMERA_PATH_def)
  show ?thesis
    unfolding track_pose_def Let_def i
    by (simp add: CAMERA_PATH_def easeT_def localT_def clamp_def smoothstep_def lerp_def)
qed

text \<open>
  Claim C4 as stated fails for the field of view. At mount it is 70; the path gives 62
  at stop 1 (progress 0.16). After a jump to stop 1 the first frame of 1/60 s raises it
  above 70, away from 62: the target of the frame is the interpolated value plus 12
  times the velocity estimate, and the velocity estimate has jumped.
\<close>

theorem fov_not_monotone_counterexample:
  "frame (1 / 60) (jumpToStop 1 initial) \<noteq> None
   \<and> camera_fov (camera (jumpToStop 1 initial)) = 70
   \<and> 70 < camera_fov (camera (the (frame (1 / 60) (jumpToStop 1 initial))))
   \<and> map_option baseFov (track_pose CAMERA_PATH (SECTION_STOPS ! 1)) = Some 62"
proof -
  let ?s = "jumpToStop 1 initial"
  let ?t = "dampValue 0 (16 / 100) 3 (1 / 60)"
  have stop: "SECTION_STOPS ! 1 = 16 / 100" "1 < length SECTION_STOPS"
    by (simp_all add: SECTION_STOPS_def)
  obtain p where p: "track_pose CAMERA_PATH ?t = Some p"
    using track_pose_CAMERA_PATH by blast
  have p': "track_pose CAMERA_PATH (dampValue (scrollRef ?s) (SECTION_STOPS ! 1) 3 (1 / 60)) = Some p"
    using p by (simp only: jump_initial stop)
  from frame_result [OF stop(2) jump_initial(2) p']
  obtain s' where s': "frame (1 / 60) ?s = Some s'"
    "scrollRef s' = dampValue (scrollRef ?s) (SECTION_STOPS ! 1) 3 (1 / 60)"
    "camera_fov (camera s') = dampValue (camera_fov (camera ?s))
        (targetFov p (velocityRef (camera s'))) 6 (1 / 60)"
    by blast
  have fov': "camera_fov (camera s') = dampValue 70 (targetFov p (velocityRef (camera s'))) 6 (1 / 60)"
    using s'(3) by (simp only: jump_initial)
  have "ScrollSmoother_frame (currentSectionRef ?s) (scrollRef ?s) (1 / 60) = Some ?t"
    by (simp add: ScrollSmoother_frame_def SCROLL_SMOOTHING_def jump_initial SECTION_STOPS_def)
  then have "CameraController_frame ?t (1 / 60) (camera ?s) = Some (camera s')"
    using s'(1) by (auto simp add: frame_def split: option.splits)
  then have v: "velocityRef (camera s') = velocity_update 0 0 ?t (1 / 60)"
    using CameraController_frame_fov [OF p, of "1 / 60" "camera ?s"] by (auto simp add: jump_initial)
  have "7 / 37 \<le> velocityRef (camera s')"
    unfolding v using first_scroll_bounds(1) by (rule kick_velocity)
  moreover have "70 - 18 / 100 \<le> baseFov p"
    using first_scroll_bounds p by (intro early_pose [of ?t]) simp_all
  ultimately have "70 < targetFov p (velocityRef (camera s'))"
    by (simp add: targetFov_def)
  then have "70 < camera_fov (camera s')"
    unfolding fov' by (intro dampValue_rises) simp_all
  moreover have "map_option baseFov (track_pose CAMERA_PATH (SECTION_STOPS ! 1)) = Some 62"
    using rest_fov_stop_1 by (simp only: stop)
  ultimately show ?thesis
    using s'(1) by (simp add: jump_initial)
qed


text \<open>
  Claim C4, as amended. A jump to stop \<open>i\<close> sets the current section and leaves the
  scroll value as it is. After any number of frames the scroll value is
  \<open>stop + (start - stop) * exp (- 3 * total time)\<close>, and one more frame with a delta
  that is not negative brings it no farther from the stop, strictly closer when the
  delta is positive and the stop is not yet reached, and never past the stop. In the same
  frame the field of view of the camera moves toward the target of that frame (the
  field of view interpolated along the path plus 12 times the velocity estimate) and
  never past it.
\<close>

theorem jump_then_damp:
  assumes "i < length SECTION_STOPS" and "0 \<le> delta"
  shows "scrollRef (jumpToStop i s) = scrollRef s
       \<and> currentSectionRef (jumpToStop i s) = int i
       \<and> (\<exists>s1 s2 p.
             frames deltas (jumpToStop i s) = Some s1
           \<and> frame delta s1 = Some s2
           \<and> scrollRef s1 = SECTION_STOPS ! i
                + (scrollRef s - SECTION_STOPS ! i) * exp (- 3 * sum_list deltas)
           \<and> scrollRef s2 = SECTION_STOPS ! i
                + (scrollRef s1 - SECTION_STOPS ! i) * exp (- 3 * delta)
           \<and> \<bar>scrollRef s2 - SECTION_STOPS ! i\<bar> \<le> \<bar>scrollRef s1 - SECTION_STOPS ! i\<bar>
           \<and> min (scrollRef s1) (SECTION_STOPS ! i) \<le> scrollRef s2
           \<and> scrollRef s2 \<le> max (scrollRef s1) (SECTION_STOPS ! i)
           \<and> (0 < delta \<and> scrollRef s1 \<noteq> SECTION_STOPS ! i \<longrightarrow>
                \<bar>scrollRef s2 - SECTION_STOPS ! i\<bar> < \<bar>scrollRef s1 - SECTION_STOPS ! i\<bar>)
           \<and> track_pose CAMERA_PATH (scrollRef s2) = Some p
           \<and> camera_fov (camera s2) =
                dampValue (camera_fov (camera s1)) (targetFov p (velocityRef (camera s2))) 6 delta
           \<and> min (camera_fov (camera s1)) (targetFov p (velocityRef (camera s2)))
                \<le> camera_fov (camera s2)
           \<and> camera_fov (camera s2)
                \<le> max (camera_fov (camera s1)) (targetFov p (velocityRef (camera s2))))"
proof -
  let ?T = "SECTION_STOPS ! i"
  have j: "scrollRef (jumpToStop i s) = scrollRef s" "currentSectionRef (jumpToStop i s) = int i"
    by (simp_all add: jumpToStop_def)
  from frames_result [OF assms(1) j(2), of deltas]
  obtain s1 where s1: "frames deltas (jumpToStop i s) = Some s1" "currentSectionRef s1 = int i"
    "scrollRef s1 = ?T + (scrollRef s - ?T) * exp (- 3 * sum_list deltas)"
    by (auto simp add: j(1))
  obtain p where p: "track_pose CAMERA_PATH (dampValue (scrollRef s1) ?T 3 delta) = Some p"
    using track_pose_CAMERA_PATH by blast
  from frame_result [OF assms(1) s1(2) p]
  obtain s2 where s2: "frame delta s1 = Some s2"
    "scrollRef s2 = dampValue (scrollRef s1) ?T 3 delta"
    "camera_fov (camera s2) =
       dampValue (camera_fov (camera s1)) (targetFov p (velocityRef (camera s2))) 6 delta"
    by blast
  have d3: "0 \<le> 3 * delta" and d6: "0 \<le> 6 * delta"
    using assms(2) by simp_all
  note scroll = dampValue_toward [OF d3, of "scrollRef s1" ?T, folded s2(2)]
  note fov = dampValue_toward [OF d6, of "camera_fov (camera s1)"
      "targetFov p (velocityRef (camera s2))", folded s2(3)]
  have closer: "\<bar>scrollRef s2 - ?T\<bar> < \<bar>scrollRef s1 - ?T\<bar>"
    if "0 < delta" "scrollRef s1 \<noteq> ?T"
    unfolding s2(2) using that by (intro dampValue_closer) simp_all
  have form: "scrollRef s2 = ?T + (scrollRef s1 - ?T) * exp (- 3 * delta)"
    by (simp add: s2(2) dampValue_formula)
  have pose: "track_pose CAMERA_PATH (scrollRef s2) = Some p"
    using p by (simp add: s2(2))
  from s1(1) s2(1) s1(3) form scroll closer pose s2(3) fov
  have "\<exists>s1 s2 p.
             frames deltas (jumpToStop i s) = Some s1
           \<and> frame delta s1 = Some s2
           \<and> scrollRef s1 = ?T + (scrollRef s - ?T) * exp (- 3 * sum_list deltas)
           \<and> scrollRef s2 = ?T + (scrollRef s1 - ?T) * exp (- 3 * delta)
           \<and> \<bar>scrollRef s2 - ?T\<bar> \<le> \<bar>scrollRef s1 - ?T\<bar>
           \<and> min (scrollRef s1) ?T \<le> scrollRef s2
           \<and> scrollRef s2 \<le> max (scrollRef s1) ?T
           \<and> (0 < delta \<and> scrollRef s1 \<noteq> ?T \<longrightarrow>
                \<bar>scrollRef s2 - ?T\<bar> < \<bar>scrollRef s1 - ?T\<bar>)
           \<and> track_pose CAMERA_PATH (scrollRef s2) = Some p
           \<and> camera_fov (camera s2) =
                dampValue (camera_fov (camera s1)) (targetFov p (velocityRef (camera s2))) 6 delta
           \<and> min (camera_fov (camera s1)) (targetFov p (velocityRef (camera s2)))
                \<le> camera_fov (camera s2)
           \<and> camera_fov (camera s2)
                \<le> max (camera_fov (camera s1)) (targetFov p (velocityRef (camera s2)))"
    by blast
  with j show ?thesis by blast
qed

theorem jump_then_damp_witness:
  "2 < length SECTION_STOPS \<and> (0::real) \<le> 1 / 60
   \<and> scrollRef (jumpToStop 2 initial) = 0
   \<and> (\<exists>s1 s2. frames [1 / 60, 1 / 60] (jumpToStop 2 initial) = Some s1
         \<and> frame (1 / 60) s1 = Some s2
         \<and> scrollRef s1 = 22 / 100 + (0 - 22 / 100) * exp (- 3 * (1 / 60 + 1 / 60))
         \<and> \<bar>scrollRef s2 - 22 / 100\<bar> \<le> \<bar>scrollRef s1 - 22 / 100\<bar>)"
proof -
  have a: "2 < length SECTION_STOPS" "(0::real) \<le> 1 / 60"
    by (simp_all add: SECTION_STOPS_def)
  have st: "SECTION_STOPS ! 2 = 22 / 100" "scrollRef initial = 0"
    by (simp_all add: SECTION_STOPS_def initial_def)
  from jump_then_damp [OF a, of initial "[1 / 60, 1 / 60]"]
  obtain s1 s2 where "scrollRef (jumpToStop 2 initial) = scrollRef initial"
    "frames [1 / 60, 1 / 60] (jumpToStop 2 initial) = Some s1"
    "frame (1 / 60) s1 = Some s2"
    "scrollRef s1 = SECTION_STOPS ! 2
       + (scrollRef initial - SECTION_STOPS ! 2) * exp (- 3 * sum_list [1 / 60, 1 / 60])"
    "\<bar>scrollRef s2 - SECTION_STOPS ! 2\<bar> \<le> \<bar>scrollRef s1 - SECTION_STOPS ! 2\<bar>"
    by blast
  then show ?thesis
    unfolding st using a by auto
qed

end
